theory Spec2Isabelle
  imports Main "HOL-Library.Word" "HOL-Library.Multiset"
begin

text \<open>
  A study application for quiz questions: a parser that turns the lines of a question
  bank into records and errors (parser.js), a normalizer that decides whether a typed
  answer matches (normalize.js), the session engine that filters and shuffles the
  questions and runs a timer for each (app.js), and the preparation of the results for
  export (csv.js). Each function of the program that a property below is about is
  translated into a function of the same name; state that the program keeps in
  \<^verbatim>\<open>appState\<close> and in the page is passed explicitly.
\<close>

section \<open>Strings of the host language\<close>

text \<open>
  A string of the program is a list of characters. The model covers ASCII text: the
  characters that the library functions used below (\<^verbatim>\<open>trim\<close>, the class
  \<^verbatim>\<open>\s\<close>, \<^verbatim>\<open>toUpperCase\<close>) treat specially are given for the ASCII
  range; a character outside it is an ordinary character to all of them.
\<close>

abbreviation backslash :: char where
  "backslash \<equiv> CHR 0x5C"

abbreviation semicolon :: char where
  "semicolon \<equiv> CHR 0x3B"

abbreviation dquote :: char where
  "dquote \<equiv> CHR 0x22"

text \<open>\<^verbatim>\<open>line[i]\<close>: reading past the end of a string gives \<^verbatim>\<open>undefined\<close>.\<close>

definition charAt :: "string \<Rightarrow> nat \<Rightarrow> char option" where
  "charAt line i = (if i < length line then Some (line ! i) else None)"

section \<open>The bank parser (parser.js)\<close>

subsection \<open>splitOnUnescapedSemicolons\<close>

text \<open>
  The \<^verbatim>\<open>while (i < line.length)\<close> loop of \<^verbatim>\<open>splitOnUnescapedSemicolons\<close>,
  with its three local variables \<^verbatim>\<open>i\<close>, \<^verbatim>\<open>currentField\<close> and
  \<^verbatim>\<open>fields\<close>; the four branches are in the order of the source.
\<close>

function split_loop :: "string \<Rightarrow> nat \<Rightarrow> string \<Rightarrow> string list \<Rightarrow> string list" where
  "split_loop line i currentField fields =
     (if i < length line then
        (if charAt line i = Some backslash \<and> charAt line (i + 1) = Some semicolon
         then split_loop line (i + 2) (currentField @ [semicolon]) fields
         else if charAt line i = Some backslash \<and> charAt line (i + 1) = Some backslash
         then split_loop line (i + 2) (currentField @ [backslash]) fields
         else if charAt line i = Some semicolon
         then split_loop line (i + 1) [] (fields @ [currentField])
         else split_loop line (i + 1) (currentField @ [line ! i]) fields)
      else fields @ [currentField])"
  by pat_completeness auto
termination
  by (relation "measure (\<lambda>(line, i, currentField, fields). length line - i)") auto

declare split_loop.simps [simp del]

definition splitOnUnescapedSemicolons :: "string \<Rightarrow> string list" where
  "splitOnUnescapedSemicolons line = split_loop line 0 [] []"

text \<open>
  The field splitter as the specification words it, by cases on the characters that
  remain: an escaped separator, an escaped backslash, a separator, any other character,
  and the end of the line, where the field in progress is emitted.
\<close>

fun fields_spec :: "string \<Rightarrow> string \<Rightarrow> string list" where
  "fields_spec cur [] = [cur]"
| "fields_spec cur [c] =
     (if c = semicolon then cur # fields_spec [] [] else fields_spec (cur @ [c]) [])"
| "fields_spec cur (c # d # cs) =
     (if c = backslash \<and> d = semicolon then fields_spec (cur @ [semicolon]) cs
      else if c = backslash \<and> d = backslash then fields_spec (cur @ [backslash]) cs
      else if c = semicolon then cur # fields_spec [] (d # cs)
      else fields_spec (cur @ [c]) (d # cs))"

subsection \<open>Library functions used by the parser\<close>

text \<open>
  White space as \<^verbatim>\<open>String.prototype.trim\<close> and the class \<^verbatim>\<open>\s\<close> see it, in
  the ASCII range: TAB, LF, VT, FF, CR and SPACE.
\<close>

definition is_ws :: "char \<Rightarrow> bool" where
  "is_ws c = (c = CHR 0x09 \<or> c = CHR 0x0A \<or> c = CHR 0x0B \<or> c = CHR 0x0C \<or> c = CHR 0x0D \<or> c = CHR 0x20)"

definition trim :: "string \<Rightarrow> string" where
  "trim s = rev (dropWhile is_ws (rev (dropWhile is_ws s)))"

text \<open>
  \<^verbatim>\<open>s.split(sep)\<close> for a one-character separator: the pieces between the
  occurrences of the separator, at least one piece, empty pieces kept.
\<close>

fun split_pieces :: "char \<Rightarrow> string \<Rightarrow> string \<Rightarrow> string list" where
  "split_pieces sep piece [] = [piece]"
| "split_pieces sep piece (c # cs) =
     (if c = sep then piece # split_pieces sep [] cs
      else split_pieces sep (piece @ [c]) cs)"

definition split_on :: "char \<Rightarrow> string \<Rightarrow> string list" where
  "split_on sep s = split_pieces sep [] s"

text \<open>The decimal and the base-36 rendering of a natural number (template strings, \<^verbatim>\<open>toString(36)\<close>).\<close>

definition digit_char :: "nat \<Rightarrow> char" where
  "digit_char d = ''0123456789abcdefghijklmnopqrstuvwxyz'' ! (d mod 36)"

function toStringRadix :: "nat \<Rightarrow> nat \<Rightarrow> string" where
  "toStringRadix r n =
     (if r < 2 \<or> n < r then [digit_char n]
      else toStringRadix r (n div r) @ [digit_char (n mod r)])"
  by pat_completeness auto
termination
  by (relation "measure (\<lambda>(r, n). n)") auto

text \<open>
  The values \<^verbatim>\<open>JSON.parse\<close> can return. \<^verbatim>\<open>JSON.parse\<close> itself belongs to the
  host, not to the program: the parser below takes it as a parameter \<open>jparse\<close>, which
  returns either the message of the \<^verbatim>\<open>SyntaxError\<close> it throws (\<open>Inl\<close>) or the
  parsed value.
\<close>

datatype json =
    JNull
  | JBool bool
  | JNumber int
  | JString string
  | JArray "json list"
  | JObject "(string \<times> json) list"

type_synonym json_parser = "string \<Rightarrow> string + json"

subsection \<open>Records and errors\<close>

record question_record =
  id_str :: string
  category :: string
  subjectBroad :: string
  subjectSpecific :: string
  question :: string
  answers :: "string list"
  level :: string
  author :: string

record parse_error =
  filename :: string
  line :: nat
  reason :: string
  rawLine :: string

text \<open>
  What \<^verbatim>\<open>parseQuestionLine\<close> returns: \<^verbatim>\<open>null\<close> for a skipped line, a question
  object, or an object with \<^verbatim>\<open>error: true\<close>.
\<close>

datatype line_result = Skipped | Parsed question_record | Failed parse_error

subsection \<open>isValidLevel, generateId\<close>

definition validLevels :: "string list" where
  "validLevels = [''Freshman'', ''Junior Varsity'', ''Varsity'']"

definition isValidLevel :: "string \<Rightarrow> bool" where
  "isValidLevel lv = (lv \<in> set validLevels)"

text \<open>
  \<^verbatim>\<open>hash = ((hash << 5) - hash) + char; hash = hash & hash\<close>: the sum is exact in
  double precision and \<^verbatim>\<open>&\<close> reduces it to a signed 32-bit integer, so the loop is
  arithmetic on 32-bit words. \<^verbatim>\<open>Math.abs\<close> is taken of the signed value.
\<close>

definition hash_step :: "32 word \<Rightarrow> char \<Rightarrow> 32 word" where
  "hash_step hash c = (push_bit 5 hash - hash) + of_nat (of_char c)"

definition generateId :: "string \<Rightarrow> string" where
  "generateId content = toStringRadix 36 (nat \<bar>sint (foldl hash_step 0 content)\<bar>)"

subsection \<open>parseQuestionLine\<close>

definition all_nonempty_strings :: "json list \<Rightarrow> bool" where
  "all_nonempty_strings els =
     list_all (\<lambda>a. case a of JString s \<Rightarrow> trim s \<noteq> [] | _ \<Rightarrow> False) els"

definition answer_text :: "json \<Rightarrow> string" where
  "answer_text a = (case a of JString s \<Rightarrow> trim s | _ \<Rightarrow> [])"

text \<open>
  The question object built at the end of the \<^verbatim>\<open>try\<close> block, from the five raw
  fields and the parsed answers.
\<close>

definition build_question :: "string \<Rightarrow> string \<Rightarrow> json list \<Rightarrow> string \<Rightarrow> string \<Rightarrow> question_record" where
  "build_question cat qu els lv au =
     (let subjectParts = split_on CHR ''>'' cat
      in \<lparr> id_str = generateId (cat @ qu @ lv @ au),
           category = trim cat,
           subjectBroad = trim (hd subjectParts),
           subjectSpecific = trim (if length subjectParts > 1 then subjectParts ! 1 else cat),
           question = trim qu,
           answers = map answer_text els,
           level = trim lv,
           author = trim au \<rparr>)"

text \<open>
  The body of the \<^verbatim>\<open>try\<close> block: \<open>Inl msg\<close> is \<^verbatim>\<open>throw new Error(msg)\<close>,
  \<open>Inr None\<close> is \<^verbatim>\<open>return null\<close>, \<open>Inr (Some q)\<close> returns the question. The checks
  are in the order of the source.
\<close>

definition parse_try :: "json_parser \<Rightarrow> string \<Rightarrow> string + question_record option" where
  "parse_try jparse ln =
     (if trim ln = [] then Inr None
      else let fields = splitOnUnescapedSemicolons ln in
        if length fields \<noteq> 5
        then Inl (''Expected 5 fields, got '' @ toStringRadix 10 (length fields))
        else if trim (fields ! 0) = [] then Inl ''Category cannot be empty''
        else if trim (fields ! 1) = [] then Inl ''Question cannot be empty''
        else (case jparse (fields ! 2) of
            Inl msg \<Rightarrow> Inl (''Invalid JSON in answers field: '' @ msg)
          | Inr (JArray els) \<Rightarrow>
              if els = [] then Inl ''Answers must be a non-empty array''
              else if \<not> all_nonempty_strings els then Inl ''All answers must be non-empty strings''
              else if \<not> isValidLevel (fields ! 3) then Inl (''Unknown level: '' @ fields ! 3)
              else if trim (fields ! 4) = [] then Inl ''Author cannot be empty''
              else Inr (Some (build_question (fields ! 0) (fields ! 1) els (fields ! 3) (fields ! 4)))
          | Inr _ \<Rightarrow> Inl ''Answers must be a non-empty array''))"

text \<open>
  \<^verbatim>\<open>parseQuestionLine\<close>: the \<^verbatim>\<open>catch\<close> clause encloses the whole body and turns
  every thrown error into an error object, so no outcome of the function is an exception.
\<close>

definition parseQuestionLine :: "json_parser \<Rightarrow> string \<Rightarrow> string \<Rightarrow> nat \<Rightarrow> line_result" where
  "parseQuestionLine jparse ln fname lineNumber =
     (case parse_try jparse ln of
        Inr None \<Rightarrow> Skipped
      | Inr (Some q) \<Rightarrow> Parsed q
      | Inl msg \<Rightarrow> Failed \<lparr> filename = fname, line = lineNumber, reason = msg, rawLine = ln \<rparr>)"

subsection \<open>parseQuestionBank\<close>

record bank_result =
  questions :: "question_record list"
  errors :: "parse_error list"
  totalLines :: nat
  validQuestions :: nat
  errorCount :: nat

text \<open>
  The \<^verbatim>\<open>lines.forEach((line, index) => ...)\<close> loop with its two accumulators; a
  \<^verbatim>\<open>null\<close> result is dropped, an object with \<^verbatim>\<open>error\<close> goes to the errors, any
  other to the questions.
\<close>

fun bank_loop :: "json_parser \<Rightarrow> string \<Rightarrow> string list \<Rightarrow> nat \<Rightarrow>
    question_record list \<Rightarrow> parse_error list \<Rightarrow> question_record list \<times> parse_error list" where
  "bank_loop jparse fname [] index qs es = (qs, es)"
| "bank_loop jparse fname (ln # rest) index qs es =
     (case parseQuestionLine jparse ln fname (index + 1) of
        Skipped \<Rightarrow> bank_loop jparse fname rest (index + 1) qs es
      | Failed e \<Rightarrow> bank_loop jparse fname rest (index + 1) qs (es @ [e])
      | Parsed q \<Rightarrow> bank_loop jparse fname rest (index + 1) (qs @ [q]) es)"

definition parseQuestionBank :: "json_parser \<Rightarrow> string \<Rightarrow> string \<Rightarrow> bank_result" where
  "parseQuestionBank jparse content fname =
     (let lines = split_on CHR 0x0A content;
          (qs, es) = bank_loop jparse fname lines 0 [] []
      in \<lparr> questions = qs, errors = es, totalLines = length lines,
           validQuestions = length qs, errorCount = length es \<rparr>)"

subsection \<open>The results of a bank, line by line\<close>

text \<open>
  What the specification says of \<^verbatim>\<open>parseBank\<close>: every line of the content is
  classified on its own, with its 1-based line number; the questions are the records of
  the lines that parsed, the errors those of the lines that failed, both in line order.
\<close>

definition line_results :: "json_parser \<Rightarrow> string \<Rightarrow> string \<Rightarrow> line_result list" where
  "line_results jparse content fname =
     map (\<lambda>(i, ln). parseQuestionLine jparse ln fname (i + 1))
       (enumerate 0 (split_on CHR 0x0A content))"

definition parsed_of :: "line_result list \<Rightarrow> question_record list" where
  "parsed_of rs = List.map_filter (\<lambda>r. case r of Parsed q \<Rightarrow> Some q | _ \<Rightarrow> None) rs"

definition failed_of :: "line_result list \<Rightarrow> parse_error list" where
  "failed_of rs = List.map_filter (\<lambda>r. case r of Failed e \<Rightarrow> Some e | _ \<Rightarrow> None) rs"

subsection \<open>A JSON parser for the examples\<close>

text \<open>
  The examples below need a \<open>jparse\<close> to run. \<open>string_array_parser\<close> reads the JSON
  texts that are an array of string literals without escape sequences, as
  \<^verbatim>\<open>JSON.parse\<close> reads them; it reports every other text as a syntax error.
\<close>

definition json_ws :: "char \<Rightarrow> bool" where
  "json_ws c = (c = CHR 0x20 \<or> c = CHR 0x09 \<or> c = CHR 0x0A \<or> c = CHR 0x0D)"

datatype scan_state = AtStart | WantFirst | WantElem | InString string | AfterElem | AtEnd

fun scan_array :: "scan_state \<Rightarrow> json list \<Rightarrow> string \<Rightarrow> json list option" where
  "scan_array st els [] = (if st = AtEnd then Some els else None)"
| "scan_array AtStart els (c # cs) =
     (if json_ws c then scan_array AtStart els cs
      else if c = CHR ''['' then scan_array WantFirst els cs else None)"
| "scan_array WantFirst els (c # cs) =
     (if json_ws c then scan_array WantFirst els cs
      else if c = CHR '']'' then scan_array AtEnd els cs
      else if c = dquote then scan_array (InString []) els cs else None)"
| "scan_array WantElem els (c # cs) =
     (if json_ws c then scan_array WantElem els cs
      else if c = dquote then scan_array (InString []) els cs else None)"
| "scan_array (InString acc) els (c # cs) =
     (if c = dquote then scan_array AfterElem (els @ [JString acc]) cs
      else if c = backslash \<or> (of_char c :: nat) < 32 then None
      else scan_array (InString (acc @ [c])) els cs)"
| "scan_array AfterElem els (c # cs) =
     (if json_ws c then scan_array AfterElem els cs
      else if c = CHR '','' then scan_array WantElem els cs
      else if c = CHR '']'' then scan_array AtEnd els cs else None)"
| "scan_array AtEnd els (c # cs) =
     (if json_ws c then scan_array AtEnd els cs else None)"

definition string_array_parser :: json_parser where
  "string_array_parser s =
     (case scan_array AtStart [] s of
        Some els \<Rightarrow> Inr (JArray els)
      | None \<Rightarrow> Inl ''Unexpected token'')"

text \<open>The text \<^verbatim>\<open>["A"]\<close> and bank lines built around it.\<close>

definition answers_A :: string where
  "answers_A = ''['' @ [dquote] @ ''A'' @ [dquote] @ '']''"

definition line_valid :: string where
  "line_valid = ''Cat;Q;'' @ answers_A @ '';Freshman;Auth''"

definition line_no_answers :: string where
  "line_no_answers = ''Cat;Q;[];Freshman;Auth''"

definition line_padded_level :: string where
  "line_padded_level = ''Cat;Q;'' @ answers_A @ ''; Freshman ;Auth''"

definition line_ABC :: string where
  "line_ABC = ''A>B>C;Q;'' @ answers_A @ '';Freshman;Auth''"

definition record_valid :: question_record where
  "record_valid = \<lparr> id_str = ''mkzjyp'', category = ''Cat'', subjectBroad = ''Cat'',
     subjectSpecific = ''Cat'', question = ''Q'', answers = [''A''],
     level = ''Freshman'', author = ''Auth'' \<rparr>"

definition record_ABC :: question_record where
  "record_ABC = \<lparr> id_str = ''j7ik85'', category = ''A>B>C'', subjectBroad = ''A'',
     subjectSpecific = ''B'', question = ''Q'', answers = [''A''],
     level = ''Freshman'', author = ''Auth'' \<rparr>"

text \<open>A bank of three lines: a valid line, a blank line, a line with an empty answers array.\<close>

definition bank3 :: string where
  "bank3 = line_valid @ [CHR 0x0A] @ ''   '' @ [CHR 0x0A] @ line_no_answers"

subsection \<open>The parts of a category path\<close>

text \<open>
  The text of a string after its first separator, and the text between its first
  separator and the next one (or the end).
\<close>

definition after_first :: "char \<Rightarrow> string \<Rightarrow> string" where
  "after_first sep s = tl (dropWhile (\<lambda>c. c \<noteq> sep) s)"

definition second_segment :: "char \<Rightarrow> string \<Rightarrow> string" where
  "second_segment sep s = takeWhile (\<lambda>c. c \<noteq> sep) (after_first sep s)"

section \<open>The normalizer (normalize.js)\<close>

text \<open>
  \<^verbatim>\<open>normalize\<close> is a chain of six library calls. Each is modelled by one function, in
  the order of the chain.
\<close>

text \<open>\<^verbatim>\<open>toUpperCase\<close> on ASCII text: the letters a to z go to A to Z.\<close>

definition upper_char :: "char \<Rightarrow> char" where
  "upper_char c =
     (if 97 \<le> (of_char c :: nat) \<and> (of_char c :: nat) \<le> 122
      then char_of ((of_char c :: nat) - 32) else c)"

definition toUpperCase :: "string \<Rightarrow> string" where
  "toUpperCase s = map upper_char s"

text \<open>\<^verbatim>\<open>replaceAll('-', ' ')\<close>.\<close>

definition replace_hyphens :: "string \<Rightarrow> string" where
  "replace_hyphens s = map (\<lambda>c. if c = CHR ''-'' then CHR '' '' else c) s"

text \<open>
  \<^verbatim>\<open>replace(/[.,!?:"'()\\[\\]{}]/g, '')\<close>. In the regular expression literal
  \<^verbatim>\<open>\\\<close> is an escaped backslash, so the character class is
  \<^verbatim>\<open>[.,!?:"'()\\[\\]\<close>: it ends at the first \<^verbatim>\<open>]\<close> that is not escaped, and its
  members are \<^verbatim>\<open>. , ! ? : " ' ( ) \ [\<close>. The rest of the pattern, \<^verbatim>\<open>{}]\<close>, is
  three literal characters (a brace that starts no quantifier and a closing bracket
  outside a class stand for themselves in a pattern without the \<^verbatim>\<open>u\<close> flag). The
  pattern therefore matches four characters: a member of the class followed by
  \<^verbatim>\<open>{}]\<close>. With the flag \<^verbatim>\<open>g\<close> every match, found from left to right without
  overlap, is replaced by the empty string.
\<close>

definition punct_class :: string where
  "punct_class = ''.,!?:'' @ [dquote, CHR 0x27] @ ''()'' @ [backslash] @ ''[''"

fun remove_punct :: "string \<Rightarrow> string" where
  "remove_punct [] = []"
| "remove_punct (c # cs) =
     (if c \<in> set punct_class \<and> take 3 cs = ''{}]'' then remove_punct (drop 3 cs)
      else c # remove_punct cs)"

text \<open>\<^verbatim>\<open>replace(/\s+/g, ' ')\<close>: every maximal run of white space becomes one space.\<close>

function collapse_ws :: "string \<Rightarrow> string" where
  "collapse_ws [] = []"
| "collapse_ws (c # cs) =
     (if is_ws c then CHR '' '' # collapse_ws (dropWhile is_ws cs)
      else c # collapse_ws cs)"
  by pat_completeness auto
termination
  by (relation "measure length") (auto simp: length_dropWhile_le less_Suc_eq_le)

text \<open>
  \<^verbatim>\<open>replace(/^(THE |A |AN )/, '')\<close>: the first alternative that matches at the start
  of the string is removed, once.
\<close>

definition strip_article :: "string \<Rightarrow> string" where
  "strip_article s =
     (if take 4 s = ''THE '' then drop 4 s
      else if take 2 s = ''A '' then drop 2 s
      else if take 3 s = ''AN '' then drop 3 s
      else s)"

definition normalize_text :: "string \<Rightarrow> string" where
  "normalize_text s =
     strip_article (collapse_ws (remove_punct (replace_hyphens (toUpperCase (trim s)))))"

definition isCorrect :: "string \<Rightarrow> string list \<Rightarrow> bool" where
  "isCorrect userInput answersArray =
     list_ex (\<lambda>a. normalize_text a = normalize_text userInput) answersArray"

text \<open>The punctuation set of the specification: \<^verbatim>\<open>. , ! ? : " ' ( ) [ ] { }\<close>.\<close>

definition punctuation :: string where
  "punctuation = ''.,!?:'' @ [dquote, CHR 0x27] @ ''()[]{}''"

text \<open>The three articles that \<^verbatim>\<open>normalize\<close> strips, each with its space.\<close>

definition starts_with_article :: "string \<Rightarrow> bool" where
  "starts_with_article s =
     (take 4 s = ''THE '' \<or> take 2 s = ''A '' \<or> take 3 s = ''AN '')"

definition space_at_ends :: "string \<Rightarrow> bool" where
  "space_at_ends s = (s \<noteq> [] \<and> (hd s = CHR '' '' \<or> last s = CHR '' ''))"

definition has_punctuation :: "string \<Rightarrow> bool" where
  "has_punctuation s = list_ex (\<lambda>c. c \<in> set punctuation) s"

section \<open>The session engine (app.js)\<close>

subsection \<open>State\<close>

text \<open>
  The \<^verbatim>\<open>correctness\<close> of an answer is one of the three strings \<^verbatim>\<open>'Correct'\<close>,
  \<^verbatim>\<open>'Incorrect'\<close> and \<^verbatim>\<open>'Timeout'\<close>; the engine writes no other.
\<close>

datatype outcome = Correct | Incorrect | Timeout

record answer_record =
  answer :: string
  correctness :: outcome
  timeElapsed :: int
  timestamp :: int

text \<open>A subject checkbox of the setup screen.\<close>

record checkbox =
  cb_value :: string
  cb_disabled :: bool
  cb_checked :: bool

text \<open>
  \<^verbatim>\<open>appState\<close>, together with what the handlers read and write outside it: the local
  \<^verbatim>\<open>timeLeft\<close> of the running question timer, the intervals that are live in the
  host (\<^verbatim>\<open>setInterval\<close>, \<^verbatim>\<open>clearInterval\<close>), the subject checkboxes and the checked
  level radio of the page, and the draws of \<^verbatim>\<open>Math.random\<close>. \<^verbatim>\<open>userAnswers\<close> is a
  sparse array: an index that was never written reads as \<^verbatim>\<open>undefined\<close>.
\<close>

record app_state =
  questions_st :: "question_record list"
  filteredQuestions :: "question_record list"
  currentQuestionIndex :: nat
  userAnswers :: "nat \<rightharpoonup> answer_record"
  sessionStartTime :: "int option"
  timeAllocated :: int
  timer :: "nat option"
  isPaused :: bool
  isSessionActive :: bool
  textRevealTimer :: "nat option"
  enterPressCount :: nat
  lastEnterTime :: int
  timeLeft :: int
  intervals :: "nat set"
  nextHandle :: nat
  subjectBoxes :: "checkbox list"
  levelChoice :: string
  randomDraws :: "nat \<Rightarrow> nat"
  drawsUsed :: nat

datatype js_error = TypeError

subsection \<open>Intervals\<close>

text \<open>
  \<^verbatim>\<open>setInterval\<close> returns a handle that is a positive integer and was not returned
  before; \<^verbatim>\<open>clearInterval\<close> of a handle that is not live, or of \<^verbatim>\<open>null\<close>, does
  nothing. \<^verbatim>\<open>if (appState.timer)\<close> tests the handle for truthiness.
\<close>

definition setInterval :: "app_state \<Rightarrow> nat \<times> app_state" where
  "setInterval s =
     (Suc (nextHandle s),
      s\<lparr> intervals := insert (Suc (nextHandle s)) (intervals s),
         nextHandle := Suc (nextHandle s) \<rparr>)"

definition clearInterval :: "nat option \<Rightarrow> app_state \<Rightarrow> app_state" where
  "clearInterval h s =
     (case h of None \<Rightarrow> s | Some i \<Rightarrow> s\<lparr> intervals := intervals s - {i} \<rparr>)"

definition truthy :: "nat option \<Rightarrow> bool" where
  "truthy h = (case h of None \<Rightarrow> False | Some i \<Rightarrow> i \<noteq> 0)"

subsection \<open>shuffleArray\<close>

text \<open>
  The loop \<^verbatim>\<open>for (let i = array.length - 1; i > 0; i--)\<close>; the index
  \<^verbatim>\<open>Math.floor(Math.random() * (i + 1))\<close> is the next draw reduced to \<open>0..i\<close>. The
  function returns the array and the number of draws used so far.
\<close>

fun shuffle_loop :: "(nat \<Rightarrow> nat) \<Rightarrow> nat \<Rightarrow> nat \<Rightarrow> 'a list \<Rightarrow> 'a list \<times> nat" where
  "shuffle_loop rnd used 0 xs = (xs, used)"
| "shuffle_loop rnd used (Suc k) xs =
     shuffle_loop rnd (Suc used) k
       (xs[Suc k := xs ! (rnd used mod (Suc k + 1)), rnd used mod (Suc k + 1) := xs ! Suc k])"

definition shuffleArray :: "(nat \<Rightarrow> nat) \<Rightarrow> nat \<Rightarrow> 'a list \<Rightarrow> 'a list \<times> nat" where
  "shuffleArray rnd used xs = shuffle_loop rnd used (length xs - 1) xs"

subsection \<open>Filters\<close>

definition selectAllSubjects :: "app_state \<Rightarrow> app_state" where
  "selectAllSubjects s =
     s\<lparr> subjectBoxes :=
          map (\<lambda>b. if \<not> cb_disabled b then b\<lparr> cb_checked := True \<rparr> else b) (subjectBoxes s) \<rparr>"

definition selectAllAvailableSubjects :: "app_state \<Rightarrow> app_state" where
  "selectAllAvailableSubjects s =
     s\<lparr> subjectBoxes :=
          map (\<lambda>b. if \<not> cb_disabled b then b\<lparr> cb_checked := True \<rparr> else b) (subjectBoxes s) \<rparr>"

definition getActiveFilters :: "app_state \<Rightarrow> string list \<times> string" where
  "getActiveFilters s = (map cb_value (filter cb_checked (subjectBoxes s)), levelChoice s)"

text \<open>\<^verbatim>\<open>filterQuestions\<close> stores the shuffled matches and returns their number.\<close>

definition filterQuestions :: "app_state \<Rightarrow> nat \<times> app_state" where
  "filterQuestions s =
     (let (selectedSubjects, selectedLevel) = getActiveFilters s;
          found = filter (\<lambda>q.
              (selectedSubjects = [] \<or> category q \<in> set selectedSubjects)
              \<and> (selectedLevel = [] \<or> level q = selectedLevel)) (questions_st s);
          (shuffled, used) = shuffleArray (randomDraws s) (drawsUsed s) found
      in (length shuffled, s\<lparr> filteredQuestions := shuffled, drawsUsed := used \<rparr>))"

text \<open>
  \<^verbatim>\<open>updateSubjectSelector\<close> (ui.js), called when the bank is loaded: a checkbox whose
  subject has no question is disabled and unchecked.
\<close>

definition updateSubjectSelector :: "question_record list \<Rightarrow> app_state \<Rightarrow> app_state" where
  "updateSubjectSelector qs s =
     s\<lparr> subjectBoxes :=
          map (\<lambda>b. if list_ex (\<lambda>q. category q = cb_value b) qs
                    then b\<lparr> cb_disabled := False \<rparr>
                    else b\<lparr> cb_disabled := True, cb_checked := False \<rparr>) (subjectBoxes s) \<rparr>"

subsection \<open>Timers\<close>

text \<open>
  \<^verbatim>\<open>handleTimeout\<close> writes the answer record and then shows the result; reading
  \<^verbatim>\<open>currentQuestion.answers\<close> throws a \<^verbatim>\<open>TypeError\<close> when there is no current
  question, after the record has been written. The first component of the result is the
  error thrown, if any.
\<close>

definition handleTimeout :: "int \<Rightarrow> app_state \<Rightarrow> js_error option \<times> app_state" where
  "handleTimeout now s =
     (if currentQuestionIndex s < length (filteredQuestions s) then None else Some TypeError,
      s\<lparr> userAnswers := (userAnswers s)(currentQuestionIndex s \<mapsto>
           \<lparr> answer = [], correctness = Timeout, timeElapsed = timeAllocated s,
             timestamp = now \<rparr>) \<rparr>)"

definition startTimer :: "app_state \<Rightarrow> app_state" where
  "startTimer s =
     (let s1 = (if truthy (timer s) then clearInterval (timer s) s else s);
          s2 = s1\<lparr> timeLeft := timeAllocated s1 \<rparr>;
          (h, s3) = setInterval s2
      in s3\<lparr> timer := Some h \<rparr>)"

text \<open>
  The callback that \<^verbatim>\<open>startTimer\<close> registers, and its delivery by the host: the
  callback of a handle runs only while the handle is live.
\<close>

definition timerCallback :: "int \<Rightarrow> app_state \<Rightarrow> js_error option \<times> app_state" where
  "timerCallback now s =
     (if \<not> isPaused s then
        (let s1 = s\<lparr> timeLeft := timeLeft s - 1 \<rparr>
         in if timeLeft s1 \<le> 0
            then handleTimeout now ((clearInterval (timer s1) s1)\<lparr> timer := None \<rparr>)
            else (None, s1))
      else (None, s))"

definition fireTimer :: "nat \<Rightarrow> int \<Rightarrow> app_state \<Rightarrow> js_error option \<times> app_state" where
  "fireTimer h now s = (if h \<in> intervals s then timerCallback now s else (None, s))"

definition toggleTimerPause :: "app_state \<Rightarrow> app_state" where
  "toggleTimerPause s = s\<lparr> isPaused := \<not> isPaused s \<rparr>"

text \<open>
  \<^verbatim>\<open>displayQuestion\<close> and \<^verbatim>\<open>startTextReveal\<close> (ui.js), as far as they touch the
  state: a running reveal interval is cleared, and a new one is registered when the
  question has more than one word. The elements that the functions look up in the page
  are taken to be there.
\<close>

definition displayQuestion :: "question_record \<Rightarrow> app_state \<Rightarrow> app_state" where
  "displayQuestion q s =
     (let s1 = (if truthy (textRevealTimer s)
                then (clearInterval (textRevealTimer s) s)\<lparr> textRevealTimer := None \<rparr> else s)
      in if length (split_on CHR '' '' (question q)) > 1
         then (let (h, s2) = setInterval s1 in s2\<lparr> textRevealTimer := Some h \<rparr>)
         else s1)"

definition resetEnterCounter :: "app_state \<Rightarrow> app_state" where
  "resetEnterCounter s = s\<lparr> enterPressCount := 0, lastEnterTime := 0 \<rparr>"

subsection \<open>Starting, advancing and leaving a session\<close>

datatype start_result = NoQuestions app_state | Started app_state

text \<open>
  The part of \<^verbatim>\<open>startPracticeSession\<close> after the filters are resolved, and the
  function itself: the three retries are in the order of the source, each guarded by the
  count of the attempt before it; clearing the level checks the radio of all levels.
\<close>

definition begin_session :: "int \<Rightarrow> app_state \<Rightarrow> app_state" where
  "begin_session now s =
     (let s1 = s\<lparr> currentQuestionIndex := 0, userAnswers := Map.empty,
                 sessionStartTime := Some now, isSessionActive := True, isPaused := False \<rparr>
      in if filteredQuestions s1 \<noteq> []
         then startTimer (displayQuestion (filteredQuestions s1 ! 0) (resetEnterCounter s1))
         else s1)"

definition startPracticeSession :: "int \<Rightarrow> app_state \<Rightarrow> start_result" where
  "startPracticeSession now s =
     (let (count0, s0) = filterQuestions s in
      if count0 = 0 then
        (let (count1, s1) =
               (if filter cb_checked (subjectBoxes s0) = []
                then filterQuestions (selectAllSubjects s0) else (count0, s0));
             (count2, s2) =
               (if count1 = 0 then filterQuestions (s1\<lparr> levelChoice := [] \<rparr>) else (count1, s1));
             (count3, s3) =
               (if count2 = 0 then filterQuestions (selectAllAvailableSubjects s2)
                else (count2, s2))
         in if count3 = 0 then NoQuestions s3 else Started (begin_session now s3))
      else Started (begin_session now s0))"

definition endSession :: "app_state \<Rightarrow> app_state" where
  "endSession s =
     (let s1 = s\<lparr> isSessionActive := False \<rparr>;
          s2 = (if truthy (timer s1)
                then (clearInterval (timer s1) s1)\<lparr> timer := None \<rparr> else s1)
      in if truthy (textRevealTimer s2)
         then (clearInterval (textRevealTimer s2) s2)\<lparr> textRevealTimer := None \<rparr> else s2)"

definition nextQuestion :: "app_state \<Rightarrow> app_state" where
  "nextQuestion s =
     (let s1 = s\<lparr> currentQuestionIndex := currentQuestionIndex s + 1 \<rparr>
      in if currentQuestionIndex s1 \<ge> length (filteredQuestions s1) then endSession s1
         else startTimer
                (displayQuestion (filteredQuestions s1 ! currentQuestionIndex s1)
                   (resetEnterCounter s1)))"

text \<open>
  \<^verbatim>\<open>resetFilters\<close>, the handler of both reset buttons (the one of the setup screen and
  \<^verbatim>\<open>reset-filters-practice\<close> of the practice screen): it checks the enabled subjects,
  checks the radio of all levels (the radio with the empty value, taken to be in the
  page) and shows the setup screen. It touches nothing else.
\<close>

definition resetFilters :: "app_state \<Rightarrow> app_state" where
  "resetFilters s = (selectAllSubjects s)\<lparr> levelChoice := [] \<rparr>"

text \<open>The ticks of the interval with handle \<open>h\<close>, delivered at the given times.\<close>

fun run_ticks :: "nat \<Rightarrow> int list \<Rightarrow> app_state \<Rightarrow> app_state" where
  "run_ticks h [] s = s"
| "run_ticks h (t # ts) s = run_ticks h ts (snd (fireTimer h t s))"

subsection \<open>Filter resolution as the specification words it\<close>

text \<open>
  The questions that match a selection: the subject matches when no subject is selected
  or the category is selected, the level matches when no level is selected or it is the
  question's level.
\<close>

definition matching :: "question_record list \<Rightarrow> string list \<Rightarrow> string \<Rightarrow> question_record list" where
  "matching pool subjects lv =
     filter (\<lambda>q. (subjects = [] \<or> category q \<in> set subjects) \<and> (lv = [] \<or> level q = lv)) pool"

text \<open>
  Selecting all subjects checks every checkbox that is not disabled; the subjects
  selected afterwards are the checked ones, in the order of the page.
\<close>

definition selected_after_all :: "checkbox list \<Rightarrow> string list" where
  "selected_after_all boxes =
     map cb_value (filter (\<lambda>b. cb_checked b \<or> \<not> cb_disabled b) boxes)"

text \<open>
  The escalation: the selection as it is; then, if no subject was selected, all subjects;
  then the level cleared; then all available subjects. The first step with a match gives
  the working set (before it is shuffled); \<open>None\<close> is the exhaustion of all steps.
\<close>

definition resolve_filters :: "question_record list \<Rightarrow> checkbox list \<Rightarrow> string \<Rightarrow> question_record list option" where
  "resolve_filters pool boxes lv =
     (let chosen = map cb_value (filter cb_checked boxes);
          widened = (if chosen = [] then selected_after_all boxes else chosen)
      in if matching pool chosen lv \<noteq> [] then Some (matching pool chosen lv)
         else if chosen = [] \<and> matching pool widened lv \<noteq> [] then Some (matching pool widened lv)
         else if matching pool widened [] \<noteq> [] then Some (matching pool widened [])
         else if matching pool (selected_after_all boxes) [] \<noteq> []
              then Some (matching pool (selected_after_all boxes) [])
         else None)"

text \<open>
  The state of the checkboxes that \<^verbatim>\<open>updateSubjectSelector\<close> establishes and that the
  handlers keep: a checked box is enabled, and a box is enabled exactly when its subject
  has a question in the pool.
\<close>

definition has_question :: "question_record list \<Rightarrow> checkbox \<Rightarrow> bool" where
  "has_question pool b = list_ex (\<lambda>q. category q = cb_value b) pool"

definition boxes_reflect_pool :: "question_record list \<Rightarrow> checkbox list \<Rightarrow> bool" where
  "boxes_reflect_pool pool boxes =
     list_all (\<lambda>b. (cb_checked b \<longrightarrow> \<not> cb_disabled b)
                  \<and> (cb_disabled b \<longleftrightarrow> \<not> has_question pool b)) boxes"

section \<open>The export (csv.js)\<close>

record csv_row =
  csv_questionId :: string
  csv_category :: string
  csv_subjectSpecific :: string
  csv_level :: string
  csv_question :: string
  csv_userAnswer :: string
  csv_correctness :: outcome
  csv_timeAllocatedSec :: int
  csv_timeElapsedSec :: int
  csv_author :: string
  csv_timestamp :: string

text \<open>
  \<^verbatim>\<open>x || d\<close> on a string and on a number: the default replaces the empty string and
  zero. On a missing answer (\<^verbatim>\<open>userAnswers[index] || {}\<close>) every field reads as
  \<^verbatim>\<open>undefined\<close> and the default is taken; a recorded \<^verbatim>\<open>correctness\<close> is a non-empty
  string and is kept.
\<close>

definition or_string :: "string \<Rightarrow> string \<Rightarrow> string" where
  "or_string x d = (if x = [] then d else x)"

definition or_int :: "int \<Rightarrow> int \<Rightarrow> int" where
  "or_int x d = (if x = 0 then d else x)"

text \<open>
  \<^verbatim>\<open>prepareSessionResultsForCsv\<close>; \<open>stamp\<close> is the value of
  \<^verbatim>\<open>getCurrentTimestamp()\<close>, read once before the rows are built.
\<close>

definition prepareSessionResultsForCsv ::
    "question_record list \<Rightarrow> (nat \<rightharpoonup> answer_record) \<Rightarrow> int \<Rightarrow> string \<Rightarrow> csv_row list" where
  "prepareSessionResultsForCsv qs given allocated stamp =
     map (\<lambda>(index, q).
        \<lparr> csv_questionId = id_str q,
          csv_category = category q,
          csv_subjectSpecific = subjectSpecific q,
          csv_level = level q,
          csv_question = question q,
          csv_userAnswer = (case given index of None \<Rightarrow> [] | Some a \<Rightarrow> or_string (answer a) []),
          csv_correctness = (case given index of None \<Rightarrow> Incorrect | Some a \<Rightarrow> correctness a),
          csv_timeAllocatedSec = allocated,
          csv_timeElapsedSec = (case given index of None \<Rightarrow> 0 | Some a \<Rightarrow> or_int (timeElapsed a) 0),
          csv_author = author q,
          csv_timestamp = stamp \<rparr>) (enumerate 0 qs)"

section \<open>Example states\<close>

definition record_capital :: question_record where
  "record_capital = \<lparr> id_str = ''x1'', category = ''Humanities>European History'',
     subjectBroad = ''Humanities'', subjectSpecific = ''European History'',
     question = ''Capital of Russia?'', answers = [''Moscow'', ''Moskva''],
     level = ''Junior Varsity'', author = ''NCAL'' \<rparr>"

text \<open>
  A loaded pool of two questions, the subject of the first selected, the level filter on
  a level that no question has, and three seconds per question.
\<close>

definition world0 :: app_state where
  "world0 = \<lparr> questions_st = [record_capital, record_valid], filteredQuestions = [],
     currentQuestionIndex = 0, userAnswers = Map.empty, sessionStartTime = None,
     timeAllocated = 3, timer = None, isPaused = False, isSessionActive = False,
     textRevealTimer = None, enterPressCount = 0, lastEnterTime = 0, timeLeft = 0,
     intervals = {}, nextHandle = 0,
     subjectBoxes =
       [\<lparr> cb_value = ''Humanities>European History'', cb_disabled = False, cb_checked = True \<rparr>,
        \<lparr> cb_value = ''Cat'', cb_disabled = False, cb_checked = False \<rparr>,
        \<lparr> cb_value = ''Math>Calculus'', cb_disabled = True, cb_checked = False \<rparr>],
     levelChoice = ''Varsity'', randomDraws = (\<lambda>n. 0), drawsUsed = 0 \<rparr>"

text \<open>The session on the first question of the pool, just started.\<close>

definition active0 :: app_state where
  "active0 = begin_session 1000 (world0\<lparr> filteredQuestions := [record_capital] \<rparr>)"

text \<open>An answer log with the first of two questions answered.\<close>

definition log0 :: "nat \<rightharpoonup> answer_record" where
  "log0 = [0 \<mapsto> \<lparr> answer = ''Moscow'', correctness = Correct, timeElapsed = 2, timestamp = 1000 \<rparr>]"

section \<open>Properties of the field splitter\<close>

lemma split_loop_fields_spec:
  "split_loop ln i cur fs = fs @ fields_spec cur (drop i ln)"
proof (induction ln i cur fs rule: split_loop.induct)
  case (1 ln i cur fs)
  show ?case
  proof (cases "i < length ln")
    case False
    then show ?thesis by (simp add: split_loop.simps [of ln i])
  next
    case True
    then obtain c rest where d: "drop i ln = c # rest" and c: "c = ln ! i"
      by (metis Cons_nth_drop_Suc)
    then have rest: "rest = drop (Suc i) ln"
      by (metis drop_Suc tl_drop list.sel(3))
    show ?thesis
    proof (cases rest)
      case Nil
      then have end1: "\<not> Suc i < length ln" using rest by simp
      with True Nil d c rest 1 show ?thesis
        by (simp add: split_loop.simps [of ln i] charAt_def)
    next
      case (Cons e rest')
      then have lt: "Suc i < length ln" using rest by (metis drop_eq_Nil2 list.distinct(1) not_le)
      have e: "e = ln ! Suc i" using Cons rest lt by (metis Cons_nth_drop_Suc list.inject)
      have rest': "rest' = drop (Suc (Suc i)) ln"
        using Cons rest lt by (metis Cons_nth_drop_Suc list.inject)
      from True lt d c e Cons rest rest' 1 show ?thesis
        by (simp add: split_loop.simps [of ln i] charAt_def)
    qed
  qed
qed


text \<open>
  C2. The loop of \<^verbatim>\<open>splitOnUnescapedSemicolons\<close> computes, for every line, the fields
  that the character-by-character rules give: a backslash followed by \<^verbatim>\<open>;\<close> emits
  \<^verbatim>\<open>;\<close> and consumes two characters, a backslash followed by a backslash emits one
  backslash and consumes two characters, any other \<^verbatim>\<open>;\<close> closes the field, any other
  character is appended, and the field in progress is emitted at the end of the line. The
  line \<^verbatim>\<open>a\;b;c\<close> gives the two fields \<^verbatim>\<open>a;b\<close> and \<^verbatim>\<open>c\<close>, and the line
  \<^verbatim>\<open>x\\y;z\<close> gives \<^verbatim>\<open>x\y\<close> and \<^verbatim>\<open>z\<close>. (Both lines, as printed here, have six
  characters; seven is the length of the quoted literal \<^verbatim>\<open>"a\;b;c"\<close> of the
  specification, where the backslash is written twice.)
\<close>

theorem splitOnUnescapedSemicolons_fields:
  "splitOnUnescapedSemicolons ln = fields_spec [] ln
   \<and> splitOnUnescapedSemicolons (''a'' @ [backslash] @ '';b;c'') = [''a;b'', ''c'']
   \<and> splitOnUnescapedSemicolons (''x'' @ [backslash, backslash] @ ''y;z'')
       = [''x'' @ [backslash] @ ''y'', ''z'']"
  by (simp add: splitOnUnescapedSemicolons_def split_loop_fields_spec)

section \<open>Properties of the bank parser\<close>

lemma bank_loop_results:
  "bank_loop jparse fname lns index qs es =
     (qs @ parsed_of (map (\<lambda>(i, ln). parseQuestionLine jparse ln fname (i + 1)) (enumerate index lns)),
      es @ failed_of (map (\<lambda>(i, ln). parseQuestionLine jparse ln fname (i + 1)) (enumerate index lns)))"
proof (induction lns arbitrary: index qs es)
  case Nil
  show ?case by (simp add: parsed_of_def failed_of_def List.map_filter_simps)
next
  case (Cons ln lns)
  show ?case
    by (cases "parseQuestionLine jparse ln fname (Suc index)")
       (simp_all add: Cons.IH parsed_of_def failed_of_def List.map_filter_simps)
qed

lemma parseQuestionBank_fields:
  "questions (parseQuestionBank jparse content fname) = parsed_of (line_results jparse content fname)"
  "errors (parseQuestionBank jparse content fname) = failed_of (line_results jparse content fname)"
  "totalLines (parseQuestionBank jparse content fname) = length (split_on CHR 0x0A content)"
  "validQuestions (parseQuestionBank jparse content fname)
     = length (questions (parseQuestionBank jparse content fname))"
  "errorCount (parseQuestionBank jparse content fname)
     = length (errors (parseQuestionBank jparse content fname))"
  by (simp_all add: parseQuestionBank_def line_results_def bank_loop_results Let_def)

lemma parseQuestionLine_blank:
  "trim ln = [] \<Longrightarrow> parseQuestionLine jparse ln fname n = Skipped"
  by (simp add: parseQuestionLine_def parse_try_def)

lemma parse_try_nonblank:
  "trim ln \<noteq> [] \<Longrightarrow> parse_try jparse ln \<noteq> Inr None"
  by (auto simp: parse_try_def Let_def split: sum.splits json.splits)

lemma parseQuestionLine_nonblank:
  assumes "trim ln \<noteq> []"
  shows "(\<exists>q. parseQuestionLine jparse ln fname n = Parsed q)
       \<or> (\<exists>msg. parseQuestionLine jparse ln fname n
             = Failed \<lparr> filename = fname, line = n, reason = msg, rawLine = ln \<rparr>)"
  using parse_try_nonblank [OF assms, of jparse]
  by (auto simp: parseQuestionLine_def split: sum.splits option.splits)

lemma parsed_of_member:
  "i < length rs \<Longrightarrow> rs ! i = Parsed q \<Longrightarrow> q \<in> set (parsed_of rs)"
proof (induction rs arbitrary: i)
  case Nil
  then show ?case by simp
next
  case (Cons r rs)
  show ?case
  proof (cases i)
    case 0
    with Cons.prems show ?thesis by (simp add: parsed_of_def)
  next
    case (Suc j)
    with Cons.prems have "q \<in> set (parsed_of rs)" by (simp add: Cons.IH)
    then show ?thesis by (cases r) (simp_all add: parsed_of_def)
  qed
qed

lemma line_results_nth:
  "i < length (split_on CHR 0x0A content) \<Longrightarrow>
   line_results jparse content fname ! i
     = parseQuestionLine jparse (split_on CHR 0x0A content ! i) fname (i + 1)"
  by (simp add: line_results_def nth_enumerate_eq)

lemma line_results_length:
  "length (line_results jparse content fname) = length (split_on CHR 0x0A content)"
  by (simp add: line_results_def)

subsection \<open>The example lines\<close>

lemma parse_answers_A: "string_array_parser answers_A = Inr (JArray [JString ''A''])"
  by (simp add: answers_A_def string_array_parser_def json_ws_def)


lemma parse_no_answers: "string_array_parser ''[]'' = Inr (JArray [])"
  by (simp add: string_array_parser_def json_ws_def)


lemma split_line_valid:
  "splitOnUnescapedSemicolons line_valid = [''Cat'', ''Q'', answers_A, ''Freshman'', ''Auth'']"
  by (simp add: line_valid_def answers_A_def splitOnUnescapedSemicolons_def split_loop_fields_spec)


lemma split_line_no_answers:
  "splitOnUnescapedSemicolons line_no_answers = [''Cat'', ''Q'', ''[]'', ''Freshman'', ''Auth'']"
  by (simp add: line_no_answers_def splitOnUnescapedSemicolons_def split_loop_fields_spec)


lemma split_line_padded_level:
  "splitOnUnescapedSemicolons line_padded_level = [''Cat'', ''Q'', answers_A, '' Freshman '', ''Auth'']"
  by (simp add: line_padded_level_def answers_A_def splitOnUnescapedSemicolons_def
      split_loop_fields_spec)


lemma split_line_ABC:
  "splitOnUnescapedSemicolons line_ABC = [''A>B>C'', ''Q'', answers_A, ''Freshman'', ''Auth'']"
  by (simp add: line_ABC_def answers_A_def splitOnUnescapedSemicolons_def split_loop_fields_spec)


lemma id_samples:
  "generateId ''CatQFreshmanAuth'' = ''mkzjyp''"
  "generateId ''A>B>CQFreshmanAuth'' = ''j7ik85''"
  by (simp_all add: generateId_def hash_step_def digit_char_def)


lemma trim_samples:
  "trim ''Cat'' = ''Cat''" "trim ''Q'' = ''Q''" "trim ''A'' = ''A''" "trim ''B'' = ''B''"
  "trim ''Freshman'' = ''Freshman''" "trim ''Auth'' = ''Auth''" "trim ''   '' = []"
  "trim ''A>B>C'' = ''A>B>C''" "trim '' Freshman '' = ''Freshman''"
  "trim line_valid \<noteq> []" "trim line_no_answers \<noteq> []"
  "trim line_padded_level \<noteq> []" "trim line_ABC \<noteq> []"
  by (simp_all add: trim_def is_ws_def line_valid_def line_no_answers_def
      line_padded_level_def line_ABC_def)

lemma parse_line_valid:
  "parseQuestionLine string_array_parser line_valid fname n = Parsed record_valid"
  by (simp add: parseQuestionLine_def parse_try_def split_line_valid parse_answers_A trim_samples
      all_nonempty_strings_def isValidLevel_def validLevels_def build_question_def split_on_def answer_text_def
      id_samples record_valid_def)


lemma parse_line_no_answers:
  "parseQuestionLine string_array_parser line_no_answers fname n
   = Failed \<lparr> filename = fname, line = n, reason = ''Answers must be a non-empty array'',
       rawLine = line_no_answers \<rparr>"
  by (simp add: parseQuestionLine_def parse_try_def split_line_no_answers parse_no_answers
      trim_samples)

lemma split_bank3: "split_on CHR 0x0A bank3 = [line_valid, ''   '', line_no_answers]"
  by (simp add: split_on_def bank3_def line_valid_def line_no_answers_def answers_A_def)

lemma line_results_bank3:
  "line_results string_array_parser bank3 fname =
     [Parsed record_valid, Skipped,
      Failed \<lparr> filename = fname, line = 3, reason = ''Answers must be a non-empty array'',
        rawLine = line_no_answers \<rparr>]"
  by (simp add: line_results_def split_bank3 enumerate_simps parse_line_valid parse_line_no_answers
      parseQuestionLine_blank trim_samples)

subsection \<open>The batch parse\<close>

text \<open>
  C1. \<^verbatim>\<open>parseQuestionBank\<close> has no exceptional outcome: every error thrown while a
  line is parsed is caught in \<^verbatim>\<open>parseQuestionLine\<close> and becomes an error object. For
  every content and filename the lines are classified one by one; \<open>questions\<close> holds the
  records of the lines that parsed and \<open>errors\<close> one error for each line that failed,
  both in line order; \<open>validQuestions\<close> and \<open>errorCount\<close> are their lengths. A blank
  line gives neither a record nor an error; a line that is not blank gives a record or
  an error that carries the filename, the 1-based line number and the raw line; and the
  record of every line that parses is among the questions, whatever the other lines are.
\<close>

theorem parseQuestionBank_total:
  "questions (parseQuestionBank jparse content fname) = parsed_of (line_results jparse content fname)
   \<and> errors (parseQuestionBank jparse content fname) = failed_of (line_results jparse content fname)
   \<and> validQuestions (parseQuestionBank jparse content fname)
       = length (questions (parseQuestionBank jparse content fname))
   \<and> errorCount (parseQuestionBank jparse content fname)
       = length (errors (parseQuestionBank jparse content fname))
   \<and> totalLines (parseQuestionBank jparse content fname) = length (split_on CHR 0x0A content)
   \<and> length (line_results jparse content fname) = length (split_on CHR 0x0A content)
   \<and> (\<forall>i < length (split_on CHR 0x0A content).
         line_results jparse content fname ! i
           = parseQuestionLine jparse (split_on CHR 0x0A content ! i) fname (i + 1)
         \<and> (trim (split_on CHR 0x0A content ! i) = [] \<longrightarrow>
               line_results jparse content fname ! i = Skipped)
         \<and> (trim (split_on CHR 0x0A content ! i) \<noteq> [] \<longrightarrow>
               (\<exists>q. line_results jparse content fname ! i = Parsed q)
               \<or> (\<exists>msg. line_results jparse content fname ! i
                     = Failed \<lparr> filename = fname, line = i + 1, reason = msg,
                         rawLine = split_on CHR 0x0A content ! i \<rparr>))
         \<and> (\<forall>q. line_results jparse content fname ! i = Parsed q \<longrightarrow>
               q \<in> set (questions (parseQuestionBank jparse content fname))))"
proof -
  have per_line: "line_results jparse content fname ! i
           = parseQuestionLine jparse (split_on CHR 0x0A content ! i) fname (i + 1)
         \<and> (trim (split_on CHR 0x0A content ! i) = [] \<longrightarrow>
               line_results jparse content fname ! i = Skipped)
         \<and> (trim (split_on CHR 0x0A content ! i) \<noteq> [] \<longrightarrow>
               (\<exists>q. line_results jparse content fname ! i = Parsed q)
               \<or> (\<exists>msg. line_results jparse content fname ! i
                     = Failed \<lparr> filename = fname, line = i + 1, reason = msg,
                         rawLine = split_on CHR 0x0A content ! i \<rparr>))
         \<and> (\<forall>q. line_results jparse content fname ! i = Parsed q \<longrightarrow>
               q \<in> set (questions (parseQuestionBank jparse content fname)))"
    if i: "i < length (split_on CHR 0x0A content)" for i
  proof -
    note nth = line_results_nth [OF i, of jparse fname]
    have blank: "trim (split_on CHR 0x0A content ! i) = [] \<longrightarrow>
        line_results jparse content fname ! i = Skipped"
      by (simp add: nth parseQuestionLine_blank)
    have nonblank: "trim (split_on CHR 0x0A content ! i) \<noteq> [] \<longrightarrow>
               (\<exists>q. line_results jparse content fname ! i = Parsed q)
               \<or> (\<exists>msg. line_results jparse content fname ! i
                     = Failed \<lparr> filename = fname, line = i + 1, reason = msg,
                         rawLine = split_on CHR 0x0A content ! i \<rparr>)"
      using parseQuestionLine_nonblank [of "split_on CHR 0x0A content ! i" jparse fname "i + 1"]
      by (simp add: nth)
    have present: "\<forall>q. line_results jparse content fname ! i = Parsed q \<longrightarrow>
               q \<in> set (questions (parseQuestionBank jparse content fname))"
      using i parsed_of_member [of i "line_results jparse content fname"]
      by (simp add: parseQuestionBank_fields(1) line_results_length)
    from nth blank nonblank present show ?thesis by blast
  qed
  then show ?thesis
    using parseQuestionBank_fields [of jparse content fname]
      line_results_length [of jparse content fname]
    by blast
qed


theorem parseQuestionBank_total_witness:
  "questions (parseQuestionBank string_array_parser bank3 ''bank.txt'') = [record_valid]
   \<and> errors (parseQuestionBank string_array_parser bank3 ''bank.txt'')
       = [\<lparr> filename = ''bank.txt'', line = 3, reason = ''Answers must be a non-empty array'',
            rawLine = line_no_answers \<rparr>]
   \<and> validQuestions (parseQuestionBank string_array_parser bank3 ''bank.txt'') = 1
   \<and> errorCount (parseQuestionBank string_array_parser bank3 ''bank.txt'') = 1
   \<and> totalLines (parseQuestionBank string_array_parser bank3 ''bank.txt'') = 3
   \<and> (1::nat) < length (split_on CHR 0x0A bank3)
   \<and> trim (split_on CHR 0x0A bank3 ! 1) = []
   \<and> line_results string_array_parser bank3 ''bank.txt'' ! 1 = Skipped
   \<and> (0::nat) < length (split_on CHR 0x0A bank3)
   \<and> trim (split_on CHR 0x0A bank3 ! 0) \<noteq> []
   \<and> line_results string_array_parser bank3 ''bank.txt'' ! 0 = Parsed record_valid
   \<and> record_valid \<in> set (questions (parseQuestionBank string_array_parser bank3 ''bank.txt''))"
  using parseQuestionBank_total [of string_array_parser bank3 "''bank.txt''"]
  by (simp add: line_results_bank3 split_bank3 trim_samples parsed_of_def failed_of_def)

subsection \<open>What a parsed record is built from\<close>

lemma parseQuestionLine_Parsed:
  assumes "parseQuestionLine jparse ln fname n = Parsed q"
  shows "\<exists>els. q = build_question (splitOnUnescapedSemicolons ln ! 0) (splitOnUnescapedSemicolons ln ! 1)
             els (splitOnUnescapedSemicolons ln ! 3) (splitOnUnescapedSemicolons ln ! 4)
           \<and> isValidLevel (splitOnUnescapedSemicolons ln ! 3)"
  using assms
  by (auto simp: parseQuestionLine_def parse_try_def Let_def
      split: sum.splits option.splits json.splits if_splits)

lemma split_pieces_unfold:
  "split_pieces sep piece s =
     (piece @ takeWhile (\<lambda>c. c \<noteq> sep) s)
       # (if sep \<in> set s then split_pieces sep [] (after_first sep s) else [])"
  by (induction s arbitrary: piece) (simp_all add: after_first_def)

lemma split_on_length: "1 < length (split_on sep s) \<longleftrightarrow> sep \<in> set s"
proof -
  have "split_pieces sep [] (after_first sep s) \<noteq> []"
    by (subst split_pieces_unfold) simp
  then show ?thesis
    by (subst split_on_def, subst split_pieces_unfold) (simp add: Suc_lessI)
qed

lemma split_on_second:
  assumes "sep \<in> set s"
  shows "split_on sep s ! 1 = second_segment sep s"
proof -
  have "split_on sep s ! 1 = hd (split_pieces sep [] (after_first sep s))"
    using assms by (subst split_on_def, subst split_pieces_unfold) (simp add: hd_conv_nth split_pieces_unfold[of sep "[]" "after_first sep s"])
  also have "\<dots> = second_segment sep s"
    by (subst split_pieces_unfold) (simp add: second_segment_def)
  finally show ?thesis .
qed

lemma build_question_subjectSpecific:
  "subjectSpecific (build_question cat qu els lv au) =
     (if CHR ''>'' \<in> set cat then trim (second_segment CHR ''>'' cat) else trim cat)"
  using split_on_length [of "CHR ''>''" cat] split_on_second [of "CHR ''>''" cat]
  by (auto simp: build_question_def Let_def)

lemma build_question_category: "category (build_question cat qu els lv au) = trim cat"
  by (simp add: build_question_def Let_def)

subsection \<open>Trimming and the parts of a path\<close>

lemma dropWhile_keep:
  "\<not> P y \<Longrightarrow> dropWhile P (xs @ y # ys) = dropWhile P xs @ y # ys"
  by (induction xs) simp_all

lemma trim_around:
  assumes "\<not> is_ws sep"
  shows "trim (pre @ sep # rest) = dropWhile is_ws pre @ sep # rev (dropWhile is_ws (rev rest))"
  using assms by (simp add: trim_def dropWhile_keep)

lemma rtrim_ltrim_commute:
  "dropWhile P (rev (dropWhile P (rev xs))) = rev (dropWhile P (rev (dropWhile P xs)))"
proof (cases "\<forall>x\<in>set xs. P x")
  case True
  then have nil: "dropWhile P xs = []" "dropWhile P (rev xs) = []"
    by (simp_all add: dropWhile_eq_Nil_conv)
  show ?thesis by (simp only: nil rev.simps dropWhile.simps)
next
  case False
  then have "\<exists>x\<in>set xs. \<not> P x" by simp
  from split_list_first_prop [OF this]
  obtain ws c mid where xs: "xs = ws @ c # mid" and ws: "\<forall>x\<in>set ws. P x" and c: "\<not> P c"
    by auto
  show ?thesis
    using ws c by (simp add: xs dropWhile_keep dropWhile_append)
qed

lemma trim_rtrim: "trim (rev (dropWhile is_ws (rev s))) = trim s"
  by (simp add: trim_def rtrim_ltrim_commute [of is_ws s] )

lemma second_segment_around:
  assumes "sep \<notin> set pre"
  shows "second_segment sep (pre @ sep # rest) = takeWhile (\<lambda>c. c \<noteq> sep) rest"
  using assms by (simp add: second_segment_def after_first_def dropWhile_append)

lemma trim_second_segment:
  assumes sep: "\<not> is_ws sep" and mem: "sep \<in> set s"
  shows "trim (second_segment sep (trim s)) = trim (second_segment sep s)"
proof -
  obtain pre rest where s: "s = pre @ sep # rest" and pre: "sep \<notin> set pre"
    using mem by (metis split_list_first)
  have pre': "sep \<notin> set (dropWhile is_ws pre)"
    using pre by (metis set_dropWhileD)
  have lhs: "second_segment sep (trim s)
      = takeWhile (\<lambda>c. c \<noteq> sep) (rev (dropWhile is_ws (rev rest)))"
    by (simp add: s trim_around [OF sep] second_segment_around [OF pre'])
  have rhs: "second_segment sep s = takeWhile (\<lambda>c. c \<noteq> sep) rest"
    by (simp add: s second_segment_around [OF pre])
  show ?thesis
  proof (cases "sep \<in> set rest")
    case True
    then obtain a b where rest: "rest = a @ sep # b" and a: "sep \<notin> set a"
      by (metis split_list_first)
    show ?thesis
      using a sep by (simp add: lhs rhs rest dropWhile_keep takeWhile_append)
  next
    case False
    then have "sep \<notin> set (rev (dropWhile is_ws (rev rest)))"
      by (metis set_dropWhileD set_rev)
    with False have whole:
      "takeWhile (\<lambda>c. c \<noteq> sep) rest = rest"
      "takeWhile (\<lambda>c. c \<noteq> sep) (rev (dropWhile is_ws (rev rest)))
         = rev (dropWhile is_ws (rev rest))"
      by (auto simp: takeWhile_eq_all_conv)
    show ?thesis unfolding lhs rhs whole by (rule trim_rtrim)
  qed
qed

lemma set_trim: "\<not> is_ws sep \<Longrightarrow> sep \<in> set (trim s) \<longleftrightarrow> sep \<in> set s"
proof
  assume "sep \<in> set (trim s)"
  then show "sep \<in> set s"
    unfolding trim_def by (metis set_dropWhileD set_rev)
next
  assume sep: "\<not> is_ws sep" and "sep \<in> set s"
  then obtain pre rest where "s = pre @ sep # rest" by (metis split_list)
  then show "sep \<in> set (trim s)" by (simp add: trim_around [OF sep])
qed

subsection \<open>The level check\<close>

text \<open>
  C6. The level is checked as it stands in the line, not trimmed: the line
  \<^verbatim>\<open>Cat;Q;["A"]; Freshman ;Auth\<close>, whose level field is a valid level between two
  spaces, is rejected with the reason \<^verbatim>\<open>Unknown level:  Freshman \<close>, although the
  trimmed field is a valid level.
\<close>

theorem parseQuestionLine_padded_level:
  "parseQuestionLine string_array_parser line_padded_level ''bank.txt'' 1
     = Failed \<lparr> filename = ''bank.txt'', line = 1, reason = ''Unknown level:  Freshman '',
         rawLine = line_padded_level \<rparr>
   \<and> isValidLevel (trim '' Freshman '')"
  by (simp add: parseQuestionLine_def parse_try_def split_line_padded_level parse_answers_A
      trim_samples all_nonempty_strings_def isValidLevel_def validLevels_def)

subsection \<open>The specific subject\<close>

text \<open>
  C7, as stated, fails: the line \<^verbatim>\<open>A>B>C;Q;["A"];Freshman;Auth\<close> parses to a record
  whose category is \<^verbatim>\<open>A>B>C\<close> and whose \<open>subjectSpecific\<close> is \<^verbatim>\<open>B\<close>, not the
  text \<^verbatim>\<open>B>C\<close> after the first \<^verbatim>\<open>>\<close>.
\<close>

theorem subjectSpecific_after_first_counterexample:
  "parseQuestionLine string_array_parser line_ABC ''bank.txt'' 1 = Parsed record_ABC
   \<and> category record_ABC = ''A>B>C''
   \<and> after_first CHR ''>'' (category record_ABC) = ''B>C''
   \<and> subjectSpecific record_ABC = ''B''
   \<and> subjectSpecific record_ABC \<noteq> after_first CHR ''>'' (category record_ABC)"
  by (simp add: parseQuestionLine_def parse_try_def split_line_ABC parse_answers_A
      trim_samples all_nonempty_strings_def isValidLevel_def validLevels_def build_question_def
      split_on_def answer_text_def id_samples record_ABC_def after_first_def)

text \<open>
  C7, amended. For every record that \<^verbatim>\<open>parseQuestionLine\<close> returns, \<open>subjectSpecific\<close>
  is the trimmed text of the category between its first \<^verbatim>\<open>>\<close> and the next
  \<^verbatim>\<open>>\<close> (or the end of the category), and the whole category when it has no
  \<^verbatim>\<open>>\<close>.
\<close>

theorem subjectSpecific_second_segment:
  assumes "parseQuestionLine jparse ln fname n = Parsed q"
  shows "subjectSpecific q =
           (if CHR ''>'' \<in> set (category q)
            then trim (second_segment CHR ''>'' (category q))
            else category q)"
proof -
  from parseQuestionLine_Parsed [OF assms] obtain cat qu els lv au
    where q: "q = build_question cat qu els lv au" by blast
  have gt: "\<not> is_ws CHR ''>''" by (simp add: is_ws_def)
  show ?thesis
    by (simp add: q build_question_subjectSpecific build_question_category
        set_trim [OF gt] trim_second_segment [OF gt])
qed

theorem subjectSpecific_second_segment_witness:
  "parseQuestionLine string_array_parser line_ABC ''bank.txt'' 1 = Parsed record_ABC
   \<and> CHR ''>'' \<in> set (category record_ABC)
   \<and> trim (second_segment CHR ''>'' (category record_ABC)) = ''B''
   \<and> subjectSpecific record_ABC = ''B''"
proof -
  have p: "parseQuestionLine string_array_parser line_ABC ''bank.txt'' 1 = Parsed record_ABC"
    by (simp add: parseQuestionLine_def parse_try_def split_line_ABC parse_answers_A
      trim_samples all_nonempty_strings_def isValidLevel_def validLevels_def build_question_def
      split_on_def answer_text_def id_samples record_ABC_def)
  have c: "category record_ABC = ''A>B>C''" by (simp add: record_ABC_def)
  have s: "trim (second_segment CHR ''>'' ''A>B>C'') = ''B''"
    by (simp add: second_segment_def after_first_def trim_samples)
  from subjectSpecific_second_segment [OF p] p c s show ?thesis by simp
qed

section \<open>Properties of the normalizer\<close>

subsection \<open>The characters of a normalized string\<close>

lemma upper_char_idem: "upper_char (upper_char c) = upper_char c"
  by (auto simp: upper_char_def)

lemma upper_char_space: "upper_char CHR '' '' = CHR '' ''"
  by (simp add: upper_char_def)

lemma set_remove_punct: "set (remove_punct x) \<subseteq> set x"
  by (induction x rule: remove_punct.induct) (auto dest: in_set_dropD)

lemma set_collapse_ws: "set (collapse_ws x) \<subseteq> insert CHR '' '' (set x)"
  by (induction x rule: collapse_ws.induct) (auto dest: set_dropWhileD)

lemma set_strip_article: "set (strip_article x) \<subseteq> set x"
  by (auto simp: strip_article_def dest: in_set_dropD)

lemma normalize_chars:
  assumes "c \<in> set (normalize_text s)"
  shows "upper_char c = c \<and> c \<noteq> CHR ''-''"
proof -
  from assms set_strip_article have "c \<in> set (collapse_ws (remove_punct (replace_hyphens (toUpperCase (trim s)))))"
    unfolding normalize_text_def by blast
  with set_collapse_ws set_remove_punct
  have "c = CHR '' '' \<or> c \<in> set (replace_hyphens (toUpperCase (trim s)))"
    by blast
  then show ?thesis
    by (auto simp: replace_hyphens_def toUpperCase_def upper_char_idem upper_char_space
        split: if_splits)
qed

lemma collapse_ws_white:
  "c \<in> set (collapse_ws x) \<Longrightarrow> is_ws c \<Longrightarrow> c = CHR '' ''"
  by (induction x rule: collapse_ws.induct) (auto split: if_splits)

subsection \<open>Each step leaves a normalized string unchanged\<close>

lemma dropWhile_collapse_ws:
  "dropWhile is_ws (collapse_ws (dropWhile is_ws cs)) = collapse_ws (dropWhile is_ws cs)"
proof (cases "dropWhile is_ws cs")
  case Nil
  show ?thesis by (simp only: Nil collapse_ws.simps dropWhile.simps)
next
  case (Cons d ds)
  then have "\<not> is_ws d" by (metis hd_dropWhile list.sel(1) list.distinct(1))
  with Cons show ?thesis by simp
qed

lemma collapse_ws_idem: "collapse_ws (collapse_ws x) = collapse_ws x"
  by (induction x rule: collapse_ws.induct) (simp_all add: dropWhile_collapse_ws)

lemma collapse_ws_tl:
  assumes "collapse_ws x = x"
  shows "collapse_ws (tl x) = tl x"
proof (cases x)
  case Nil
  then show ?thesis by simp
next
  case (Cons c cs)
  show ?thesis
  proof (cases "is_ws c")
    case True
    with assms Cons have cs: "cs = collapse_ws (dropWhile is_ws cs)" by simp
    from cs have "collapse_ws cs = collapse_ws (collapse_ws (dropWhile is_ws cs))"
      by (rule arg_cong)
    also have "\<dots> = collapse_ws (dropWhile is_ws cs)" by (rule collapse_ws_idem)
    also have "\<dots> = cs" by (rule cs [symmetric])
    finally show ?thesis by (simp add: Cons)
  next
    case False
    with assms Cons show ?thesis by simp
  qed
qed

lemma collapse_ws_drop: "collapse_ws x = x \<Longrightarrow> collapse_ws (drop n x) = drop n x"
proof (induction n arbitrary: x)
  case 0
  then show ?case by simp
next
  case (Suc n)
  have "drop (Suc n) x = drop n (tl x)" by (simp add: drop_Suc)
  with Suc.IH [OF collapse_ws_tl [OF Suc.prems]] show ?case by simp
qed

lemma collapse_ws_normalize: "collapse_ws (normalize_text s) = normalize_text s"
  by (simp add: normalize_text_def strip_article_def collapse_ws_drop collapse_ws_idem)

lemma trim_normalize:
  assumes "\<not> space_at_ends (normalize_text s)"
  shows "trim (normalize_text s) = normalize_text s"
proof (cases "normalize_text s")
  case Nil
  then show ?thesis by (simp add: trim_def)
next
  case (Cons c cs)
  have white: "is_ws d \<Longrightarrow> d \<in> set (normalize_text s) \<Longrightarrow> d = CHR '' ''" for d
    using collapse_ws_white [of d "normalize_text s"] by (simp add: collapse_ws_normalize)
  from assms Cons have ends: "hd (normalize_text s) \<noteq> CHR '' ''" "last (normalize_text s) \<noteq> CHR '' ''"
    by (simp_all add: space_at_ends_def)
  have "\<not> is_ws (hd (normalize_text s))" using white [of "hd (normalize_text s)"] ends Cons by auto
  then have front: "dropWhile is_ws (normalize_text s) = normalize_text s" using Cons by simp
  have "\<not> is_ws (last (normalize_text s))" using white [of "last (normalize_text s)"] ends Cons
    by (metis last_in_set list.distinct(1))
  then have "\<not> is_ws (hd (rev (normalize_text s)))" by (simp add: hd_rev)
  then have rear: "dropWhile is_ws (rev (normalize_text s)) = rev (normalize_text s)"
    using Cons by (cases "rev (normalize_text s)") simp_all
  show ?thesis by (simp add: trim_def front rear)
qed

lemma toUpperCase_normalize: "toUpperCase (normalize_text s) = normalize_text s"
  unfolding toUpperCase_def by (rule map_idI) (simp add: normalize_chars)

lemma replace_hyphens_normalize: "replace_hyphens (normalize_text s) = normalize_text s"
  unfolding replace_hyphens_def using normalize_chars [of _ s] by (intro map_idI) auto

lemma take3_brace: "take 3 cs = ''{}]'' \<Longrightarrow> CHR ''{'' \<in> set cs"
  by (metis in_set_takeD list.set_intros(1))

lemma remove_punct_none: "CHR ''{'' \<notin> set x \<Longrightarrow> remove_punct x = x"
  by (induction x) (auto dest: take3_brace)

lemma remove_punct_normalize:
  assumes "\<not> has_punctuation (normalize_text s)"
  shows "remove_punct (normalize_text s) = normalize_text s"
proof -
  have "CHR ''{'' \<in> set punctuation" by (simp add: punctuation_def)
  with assms have "CHR ''{'' \<notin> set (normalize_text s)"
    by (auto simp: has_punctuation_def list_ex_iff)
  then show ?thesis by (rule remove_punct_none)
qed

lemma strip_article_none: "\<not> starts_with_article x \<Longrightarrow> strip_article x = x"
  by (simp add: starts_with_article_def strip_article_def)

subsection \<open>Punctuation is not removed\<close>

text \<open>
  C3. The pattern of the fourth step matches only a four-character sequence, so a
  punctuation character that stands alone stays: \<^verbatim>\<open>normalize("a.b")\<close> is
  \<^verbatim>\<open>"A.B"\<close>, which contains the full stop.
\<close>

theorem normalize_keeps_full_stop:
  "normalize_text ''a.b'' = ''A.B'' \<and> has_punctuation (normalize_text ''a.b'')"
proof -
  have "normalize_text ''a.b'' = ''A.B''" by code_simp
  then show ?thesis by (simp add: has_punctuation_def punctuation_def)
qed

subsection \<open>Normalizing twice\<close>

text \<open>
  C4, as stated, fails: \<^verbatim>\<open>normalize("the an x")\<close> is \<^verbatim>\<open>"AN X"\<close>, since one article
  is stripped, and normalizing that again gives \<^verbatim>\<open>"X"\<close>.
\<close>

theorem normalize_twice_counterexample:
  "normalize_text ''the an x'' = ''AN X''
   \<and> normalize_text (normalize_text ''the an x'') = ''X''
   \<and> normalize_text (normalize_text ''the an x'') \<noteq> normalize_text ''the an x''"
proof -
  have a: "normalize_text ''the an x'' = ''AN X''" by code_simp
  have b: "normalize_text ''AN X'' = ''X''" by code_simp
  show ?thesis by (simp add: a b)
qed

text \<open>
  C4, amended. Normalizing a second time changes nothing when the normalized string does
  not begin with a further article, neither begins nor ends with a space, and contains
  no character of the punctuation set.
\<close>

theorem normalize_twice:
  assumes "\<not> starts_with_article (normalize_text s)"
    and "\<not> space_at_ends (normalize_text s)"
    and "\<not> has_punctuation (normalize_text s)"
  shows "normalize_text (normalize_text s) = normalize_text s"
proof -
  have "normalize_text (normalize_text s)
      = strip_article (collapse_ws (remove_punct (replace_hyphens (toUpperCase (trim (normalize_text s))))))"
    by (simp add: normalize_text_def)
  also have "\<dots> = strip_article (normalize_text s)"
    by (simp only: trim_normalize [OF assms(2)] toUpperCase_normalize replace_hyphens_normalize
        remove_punct_normalize [OF assms(3)] collapse_ws_normalize)
  also have "\<dots> = normalize_text s"
    by (rule strip_article_none [OF assms(1)])
  finally show ?thesis .
qed

theorem normalize_twice_witness:
  "normalize_text '' the  New-York '' = ''NEW YORK''
   \<and> \<not> starts_with_article (normalize_text '' the  New-York '')
   \<and> \<not> space_at_ends (normalize_text '' the  New-York '')
   \<and> \<not> has_punctuation (normalize_text '' the  New-York '')
   \<and> normalize_text (normalize_text '' the  New-York '') = ''NEW YORK''"
proof -
  have e: "normalize_text '' the  New-York '' = ''NEW YORK''" by code_simp
  have h1: "\<not> starts_with_article (normalize_text '' the  New-York '')"
    by (simp add: e starts_with_article_def)
  have h2: "\<not> space_at_ends (normalize_text '' the  New-York '')"
    by (simp add: e space_at_ends_def)
  have h3: "\<not> has_punctuation (normalize_text '' the  New-York '')"
    by (simp add: e has_punctuation_def punctuation_def)
  from normalize_twice [OF h1 h2 h3] e h1 h2 h3 show ?thesis by simp
qed

section \<open>Properties of the export\<close>

text \<open>
  C10. \<^verbatim>\<open>prepareSessionResultsForCsv\<close> returns one row for each question of the
  working set, in the order of the working set, with the fields of the question, the time
  allocated and one common timestamp. The row of an index without an answer record has
  the empty string as \<open>userAnswer\<close>, \<open>Incorrect\<close> as \<open>correctness\<close> and 0 as
  \<open>timeElapsedSec\<close>; the row of an answered index has the answer text, the correctness
  and the elapsed time of its record.
\<close>

theorem prepareSessionResultsForCsv_rows:
  "length (prepareSessionResultsForCsv qs given allocated stamp) = length qs
   \<and> (\<forall>i < length qs.
        csv_questionId (prepareSessionResultsForCsv qs given allocated stamp ! i) = id_str (qs ! i)
        \<and> csv_category (prepareSessionResultsForCsv qs given allocated stamp ! i) = category (qs ! i)
        \<and> csv_subjectSpecific (prepareSessionResultsForCsv qs given allocated stamp ! i)
            = subjectSpecific (qs ! i)
        \<and> csv_level (prepareSessionResultsForCsv qs given allocated stamp ! i) = level (qs ! i)
        \<and> csv_question (prepareSessionResultsForCsv qs given allocated stamp ! i) = question (qs ! i)
        \<and> csv_author (prepareSessionResultsForCsv qs given allocated stamp ! i) = author (qs ! i)
        \<and> csv_timeAllocatedSec (prepareSessionResultsForCsv qs given allocated stamp ! i) = allocated
        \<and> csv_timestamp (prepareSessionResultsForCsv qs given allocated stamp ! i) = stamp
        \<and> (given i = None \<longrightarrow>
              csv_userAnswer (prepareSessionResultsForCsv qs given allocated stamp ! i) = []
              \<and> csv_correctness (prepareSessionResultsForCsv qs given allocated stamp ! i) = Incorrect
              \<and> csv_timeElapsedSec (prepareSessionResultsForCsv qs given allocated stamp ! i) = 0)
        \<and> (\<forall>a. given i = Some a \<longrightarrow>
              csv_userAnswer (prepareSessionResultsForCsv qs given allocated stamp ! i) = answer a
              \<and> csv_correctness (prepareSessionResultsForCsv qs given allocated stamp ! i)
                  = correctness a
              \<and> csv_timeElapsedSec (prepareSessionResultsForCsv qs given allocated stamp ! i)
                  = timeElapsed a))"
  by (simp add: prepareSessionResultsForCsv_def nth_enumerate_eq or_string_def or_int_def)

theorem prepareSessionResultsForCsv_rows_witness:
  "length (prepareSessionResultsForCsv [record_capital, record_valid] log0 3 ''2024-12-20T10:00:00.000Z'') = 2
   \<and> (1::nat) < length [record_capital, record_valid]
   \<and> log0 1 = None
   \<and> csv_userAnswer (prepareSessionResultsForCsv [record_capital, record_valid] log0 3
         ''2024-12-20T10:00:00.000Z'' ! 1) = []
   \<and> csv_correctness (prepareSessionResultsForCsv [record_capital, record_valid] log0 3
         ''2024-12-20T10:00:00.000Z'' ! 1) = Incorrect
   \<and> csv_timeElapsedSec (prepareSessionResultsForCsv [record_capital, record_valid] log0 3
         ''2024-12-20T10:00:00.000Z'' ! 1) = 0
   \<and> log0 0 = Some \<lparr> answer = ''Moscow'', correctness = Correct, timeElapsed = 2, timestamp = 1000 \<rparr>
   \<and> csv_userAnswer (prepareSessionResultsForCsv [record_capital, record_valid] log0 3
         ''2024-12-20T10:00:00.000Z'' ! 0) = ''Moscow''
   \<and> csv_correctness (prepareSessionResultsForCsv [record_capital, record_valid] log0 3
         ''2024-12-20T10:00:00.000Z'' ! 0) = Correct
   \<and> csv_timeElapsedSec (prepareSessionResultsForCsv [record_capital, record_valid] log0 3
         ''2024-12-20T10:00:00.000Z'' ! 0) = 2"
  using prepareSessionResultsForCsv_rows
    [of "[record_capital, record_valid]" log0 3 "''2024-12-20T10:00:00.000Z''"]
  by (simp add: log0_def)

section \<open>Properties of the session engine\<close>

subsection \<open>Timeouts\<close>

lemma handleTimeout_log:
  "userAnswers (snd (handleTimeout now s)) (currentQuestionIndex s)
     = Some \<lparr> answer = [], correctness = Timeout, timeElapsed = timeAllocated s, timestamp = now \<rparr>"
  "i \<noteq> currentQuestionIndex s \<Longrightarrow> userAnswers (snd (handleTimeout now s)) i = userAnswers s i"
  by (simp_all add: handleTimeout_def)

lemma fireTimer_expiry:
  assumes "h \<in> intervals s" "\<not> isPaused s" "timeLeft s \<le> 1"
  shows "userAnswers (snd (fireTimer h now s)) (currentQuestionIndex s)
     = Some \<lparr> answer = [], correctness = Timeout, timeElapsed = timeAllocated s, timestamp = now \<rparr>"
    and "timer (snd (fireTimer h now s)) = None"
    and "timer s = Some h \<Longrightarrow> h \<notin> intervals (snd (fireTimer h now s))"
  using assms
  by (simp_all add: fireTimer_def timerCallback_def handleTimeout_def clearInterval_def Let_def
      split: option.splits)

lemma fireTimer_running:
  assumes "h \<in> intervals s" "\<not> isPaused s" "1 < timeLeft s"
  shows "snd (fireTimer h now s) = s\<lparr> timeLeft := timeLeft s - 1 \<rparr>"
  using assms by (simp add: fireTimer_def timerCallback_def Let_def)

lemma run_ticks_countdown:
  assumes "timer s = Some h" "h \<in> intervals s" "\<not> isPaused s"
    and "timeLeft s = int (length ts)" "ts \<noteq> []"
  shows "userAnswers (run_ticks h ts s) (currentQuestionIndex s)
     = Some \<lparr> answer = [], correctness = Timeout, timeElapsed = timeAllocated s,
         timestamp = last ts \<rparr>"
  using assms
proof (induction ts arbitrary: s)
  case Nil
  then show ?case by simp
next
  case (Cons t ts)
  show ?case
  proof (cases "ts = []")
    case True
    with Cons.prems have "timeLeft s \<le> 1" by simp
    from fireTimer_expiry(1) [OF Cons.prems(2,3) this, of t] True show ?thesis by simp
  next
    case False
    with Cons.prems have "1 < timeLeft s" by (cases ts) simp_all
    from fireTimer_running [OF Cons.prems(2,3) this, of t]
    have step: "snd (fireTimer h t s) = s\<lparr> timeLeft := timeLeft s - 1 \<rparr>" .
    have "userAnswers (run_ticks h ts (s\<lparr> timeLeft := timeLeft s - 1 \<rparr>))
            (currentQuestionIndex (s\<lparr> timeLeft := timeLeft s - 1 \<rparr>))
        = Some \<lparr> answer = [], correctness = Timeout,
            timeElapsed = timeAllocated (s\<lparr> timeLeft := timeLeft s - 1 \<rparr>), timestamp = last ts \<rparr>"
      using Cons.prems False by (intro Cons.IH) simp_all
    with False show ?thesis by (simp add: step)
  qed
qed

lemma startTimer_state:
  "timer (startTimer s) = Some (Suc (nextHandle s))"
  "Suc (nextHandle s) \<in> intervals (startTimer s)"
  "timeLeft (startTimer s) = timeAllocated s"
  "isPaused (startTimer s) = isPaused s"
  "currentQuestionIndex (startTimer s) = currentQuestionIndex s"
  "timeAllocated (startTimer s) = timeAllocated s"
  by (simp_all add: startTimer_def setInterval_def clearInterval_def Let_def split: option.splits)

lemma active0_state:
  "active0 = world0\<lparr> filteredQuestions := [record_capital], sessionStartTime := Some 1000,
      isSessionActive := True, textRevealTimer := Some 1, timer := Some 2, timeLeft := 3,
      intervals := {1, 2}, nextHandle := 2 \<rparr>"
  by (simp add: active0_def begin_session_def world0_def resetEnterCounter_def
      displayQuestion_def startTimer_def setInterval_def clearInterval_def truthy_def
      split_on_def record_capital_def Let_def insert_commute numeral_2_eq_2)

text \<open>
  C8. \<^verbatim>\<open>handleTimeout\<close> writes, at the current question index and nowhere else, the
  record with the empty answer text, the outcome \<open>Timeout\<close> and the time allocated as
  elapsed time. The tick of the question timer that brings the count to zero, with the
  timer not paused, calls it and stops the timer; and when a timer is started with a
  positive time allocation and nothing but its ticks happens, the tick that completes the
  allocation leaves this record in the log.
\<close>

theorem timeout_record:
  "userAnswers (snd (handleTimeout now s)) (currentQuestionIndex s)
     = Some \<lparr> answer = [], correctness = Timeout, timeElapsed = timeAllocated s, timestamp = now \<rparr>
   \<and> (\<forall>i. i \<noteq> currentQuestionIndex s \<longrightarrow>
         userAnswers (snd (handleTimeout now s)) i = userAnswers s i)
   \<and> (h \<in> intervals s \<and> \<not> isPaused s \<and> timeLeft s \<le> 1 \<longrightarrow>
         userAnswers (snd (fireTimer h now s)) (currentQuestionIndex s)
           = Some \<lparr> answer = [], correctness = Timeout, timeElapsed = timeAllocated s,
               timestamp = now \<rparr>
         \<and> timer (snd (fireTimer h now s)) = None)
   \<and> (\<not> isPaused s \<and> 0 < timeAllocated s \<and> int (length ts) = timeAllocated s \<longrightarrow>
         userAnswers (run_ticks (Suc (nextHandle s)) ts (startTimer s)) (currentQuestionIndex s)
           = Some \<lparr> answer = [], correctness = Timeout, timeElapsed = timeAllocated s,
               timestamp = last ts \<rparr>)"
proof -
  have countdown: "userAnswers (run_ticks (Suc (nextHandle s)) ts (startTimer s)) (currentQuestionIndex s)
           = Some \<lparr> answer = [], correctness = Timeout, timeElapsed = timeAllocated s,
               timestamp = last ts \<rparr>"
    if "\<not> isPaused s" "0 < timeAllocated s" "int (length ts) = timeAllocated s"
  proof -
    from that have ne: "ts \<noteq> []" by auto
    from run_ticks_countdown [of "startTimer s" "Suc (nextHandle s)" ts] that ne
    show ?thesis by (simp add: startTimer_state)
  qed
  show ?thesis
    using handleTimeout_log [where now = now and s = s]
      fireTimer_expiry(1,2) [where h = h and s = s and now = now] countdown
    by blast
qed

theorem timeout_record_witness:
  "\<not> isPaused active0 \<and> timeLeft active0 = 3 \<and> timeAllocated active0 = 3
   \<and> timer active0 = Some 2 \<and> 2 \<in> intervals active0 \<and> currentQuestionIndex active0 = 0
   \<and> userAnswers active0 0 = None
   \<and> userAnswers (run_ticks 2 [2000, 3000] active0) 0 = None
   \<and> timeLeft (run_ticks 2 [2000, 3000] active0) \<le> 1
   \<and> userAnswers (snd (fireTimer 2 4000 (run_ticks 2 [2000, 3000] active0))) 0
       = Some \<lparr> answer = [], correctness = Timeout, timeElapsed = 3, timestamp = 4000 \<rparr>
   \<and> timer (snd (fireTimer 2 4000 (run_ticks 2 [2000, 3000] active0))) = None
   \<and> int (length [2000, 3000, 4000 :: int]) = timeAllocated active0
   \<and> nextHandle active0 = 2
   \<and> userAnswers (run_ticks 3 [2000, 3000, 4000] (startTimer active0)) 0
       = Some \<lparr> answer = [], correctness = Timeout, timeElapsed = 3, timestamp = 4000 \<rparr>"
proof -
  note a = active0_state
  have r: "run_ticks 2 [2000, 3000] active0 = active0\<lparr> timeLeft := 1 \<rparr>"
    by (simp add: a fireTimer_def timerCallback_def world0_def Let_def)
  have facts: "2 \<in> intervals (run_ticks 2 [2000, 3000] active0)"
    "\<not> isPaused (run_ticks 2 [2000, 3000] active0)"
    "timeLeft (run_ticks 2 [2000, 3000] active0) \<le> 1"
    "currentQuestionIndex (run_ticks 2 [2000, 3000] active0) = 0"
    "timeAllocated (run_ticks 2 [2000, 3000] active0) = 3"
    unfolding r by (simp_all add: a world0_def)
  from timeout_record [where now = 4000 and s = "run_ticks 2 [2000, 3000] active0" and h = 2
      and ts = "[]"] facts
  have "userAnswers (snd (fireTimer 2 4000 (run_ticks 2 [2000, 3000] active0))) 0
       = Some \<lparr> answer = [], correctness = Timeout, timeElapsed = 3, timestamp = 4000 \<rparr>
   \<and> timer (snd (fireTimer 2 4000 (run_ticks 2 [2000, 3000] active0))) = None"
    by simp
  moreover have "userAnswers (run_ticks 2 [2000, 3000] active0) 0 = None"
    unfolding r by (simp add: a world0_def)
  moreover have "\<not> isPaused active0 \<and> timeLeft active0 = 3 \<and> timeAllocated active0 = 3
   \<and> timer active0 = Some 2 \<and> 2 \<in> intervals active0 \<and> currentQuestionIndex active0 = 0
   \<and> userAnswers active0 0 = None"
    by (simp add: a world0_def)
  moreover have "int (length [2000, 3000, 4000 :: int]) = timeAllocated active0
      \<and> nextHandle active0 = 2 \<and> \<not> isPaused active0 \<and> 0 < timeAllocated active0
      \<and> currentQuestionIndex active0 = 0 \<and> timeAllocated active0 = 3"
    by (simp add: a world0_def)
  moreover from this
    timeout_record [where now = 0 and s = active0 and h = 0 and ts = "[2000, 3000, 4000]"]
  have "userAnswers (run_ticks 3 [2000, 3000, 4000] (startTimer active0)) 0
       = Some \<lparr> answer = [], correctness = Timeout, timeElapsed = 3, timestamp = 4000 \<rparr>"
    by (simp add: numeral_3_eq_3)
  ultimately show ?thesis using facts(3) by blast
qed

subsection \<open>Leaving the active session\<close>

lemma endSession_clears:
  assumes "intervals s \<subseteq> {h. timer s = Some h \<or> textRevealTimer s = Some h}"
    and "0 \<notin> intervals s"
  shows "intervals (endSession s) = {}"
    and "\<not> isSessionActive (endSession s)"
  using assms
  by (auto simp: endSession_def clearInterval_def truthy_def Let_def split: option.splits)

lemma nextQuestion_last:
  assumes "length (filteredQuestions s) \<le> currentQuestionIndex s + 1"
  shows "nextQuestion s = endSession (s\<lparr> currentQuestionIndex := currentQuestionIndex s + 1 \<rparr>)"
  using assms by (simp add: nextQuestion_def Let_def)

lemma resetFilters_timers:
  "intervals (resetFilters s) = intervals s"
  "timer (resetFilters s) = timer s"
  "textRevealTimer (resetFilters s) = textRevealTimer s"
  "isSessionActive (resetFilters s) = isSessionActive s"
  by (simp_all add: resetFilters_def selectAllSubjects_def)

text \<open>
  C9. In the session \<open>active0\<close> the question timer (handle 2) and the reveal interval
  (handle 1) are live. \<^verbatim>\<open>endSession\<close>, the manual end, and \<^verbatim>\<open>nextQuestion\<close> on the
  last question, the natural completion, leave no interval live. \<^verbatim>\<open>resetFilters\<close>,
  the handler of the reset button of the practice screen, leaves both intervals live and
  the session marked active, and the ticks of the question timer that follow write a
  timeout record into the answer log of the session that was left.
\<close>

theorem resetFilters_leaves_timers_live:
  "isSessionActive active0 \<and> timer active0 = Some 2 \<and> textRevealTimer active0 = Some 1
   \<and> intervals active0 = {1, 2}
   \<and> intervals (endSession active0) = {}
   \<and> intervals (nextQuestion active0) = {}
   \<and> intervals (resetFilters active0) = {1, 2}
   \<and> timer (resetFilters active0) = Some 2
   \<and> textRevealTimer (resetFilters active0) = Some 1
   \<and> isSessionActive (resetFilters active0)
   \<and> userAnswers (resetFilters active0) 0 = None
   \<and> userAnswers (run_ticks 2 [2000, 3000, 4000] (resetFilters active0)) 0
       = Some \<lparr> answer = [], correctness = Timeout, timeElapsed = 3, timestamp = 4000 \<rparr>"
proof -
  have st: "isSessionActive active0" "timer active0 = Some 2" "textRevealTimer active0 = Some 1"
    "intervals active0 = {1, 2}" "userAnswers active0 0 = None" "\<not> isPaused active0"
    "timeLeft active0 = 3" "currentQuestionIndex active0 = 0" "timeAllocated active0 = 3"
    "length (filteredQuestions active0) = 1"
    by (simp_all add: active0_state world0_def)
  have ended: "intervals (endSession active0) = {}"
    by (rule endSession_clears) (auto simp: st)
  have advanced: "intervals (nextQuestion active0) = {}"
    unfolding nextQuestion_last [of active0, unfolded st, simplified]
    by (rule endSession_clears) (auto simp: st)
  have reset: "intervals (resetFilters active0) = {1, 2}" "timer (resetFilters active0) = Some 2"
    "textRevealTimer (resetFilters active0) = Some 1" "isSessionActive (resetFilters active0)"
    "userAnswers (resetFilters active0) 0 = None"
    by (simp_all add: resetFilters_timers st resetFilters_def selectAllSubjects_def)
  have later: "userAnswers (run_ticks 2 [2000, 3000, 4000] (resetFilters active0))
       (currentQuestionIndex (resetFilters active0))
       = Some \<lparr> answer = [], correctness = Timeout,
           timeElapsed = timeAllocated (resetFilters active0), timestamp = last [2000, 3000, 4000] \<rparr>"
    by (rule run_ticks_countdown)
       (simp_all add: reset st resetFilters_def selectAllSubjects_def)
  then have "userAnswers (run_ticks 2 [2000, 3000, 4000] (resetFilters active0)) 0
       = Some \<lparr> answer = [], correctness = Timeout, timeElapsed = 3, timestamp = 4000 \<rparr>"
    by (simp add: st resetFilters_def selectAllSubjects_def)
  with st ended advanced reset show ?thesis by simp
qed

subsection \<open>Filter resolution\<close>

lemma shuffle_loop_mset:
  "k < length xs \<or> k = 0 \<Longrightarrow> mset (fst (shuffle_loop rnd used k xs)) = mset xs"
proof (induction k arbitrary: used xs)
  case 0
  then show ?case by simp
next
  case (Suc k)
  let ?j = "rnd used mod (Suc k + 1)"
  from Suc.prems have i: "Suc k < length xs" by simp
  have j: "?j < length xs" using i by (metis Suc_eq_plus1 less_Suc_eq_le mod_less_divisor order_le_less_trans zero_less_Suc)
  have "mset (fst (shuffle_loop rnd (Suc used) k (xs[Suc k := xs ! ?j, ?j := xs ! Suc k])))
      = mset (xs[Suc k := xs ! ?j, ?j := xs ! Suc k])"
    using i by (intro Suc.IH) simp
  also have "\<dots> = mset xs" by (rule mset_swap [OF j i])
  finally show ?case by simp
qed

lemma shuffleArray_mset: "mset (fst (shuffleArray rnd used xs)) = mset xs"
  unfolding shuffleArray_def by (rule shuffle_loop_mset) (cases xs, simp_all)

lemma filterQuestions_count:
  "fst (filterQuestions s)
     = length (matching (questions_st s) (map cb_value (filter cb_checked (subjectBoxes s)))
         (levelChoice s))"
proof -
  have "length (fst (shuffleArray rnd used xs)) = length xs" for rnd used and xs :: "question_record list"
    using shuffleArray_mset [of rnd used xs] by (metis size_mset)
  then show ?thesis
    by (simp add: filterQuestions_def getActiveFilters_def matching_def Let_def split_def)
qed

lemma filterQuestions_state:
  "mset (filteredQuestions (snd (filterQuestions s)))
     = mset (matching (questions_st s) (map cb_value (filter cb_checked (subjectBoxes s)))
         (levelChoice s))"
  "subjectBoxes (snd (filterQuestions s)) = subjectBoxes s"
  "levelChoice (snd (filterQuestions s)) = levelChoice s"
  "questions_st (snd (filterQuestions s)) = questions_st s"
  by (simp_all add: filterQuestions_def getActiveFilters_def matching_def Let_def split_def
      shuffleArray_mset)

lemma selectAll_selected:
  "map cb_value (filter cb_checked
      (map (\<lambda>b. if \<not> cb_disabled b then b\<lparr> cb_checked := True \<rparr> else b) boxes))
   = selected_after_all boxes"
  by (induction boxes) (auto simp: selected_after_all_def)

lemma selected_after_all_again:
  "selected_after_all (map (\<lambda>b. if \<not> cb_disabled b then b\<lparr> cb_checked := True \<rparr> else b) boxes)
   = selected_after_all boxes"
  by (induction boxes) (auto simp: selected_after_all_def)

lemma begin_session_state:
  "filteredQuestions (begin_session now s) = filteredQuestions s"
  "isSessionActive (begin_session now s)"
  "currentQuestionIndex (begin_session now s) = 0"
  by (simp_all add: begin_session_def startTimer_def displayQuestion_def resetEnterCounter_def
      setInterval_def clearInterval_def Let_def split_def split: option.splits)


lemma startPracticeSession_resolve:
  "case resolve_filters (questions_st s) (subjectBoxes s) (levelChoice s) of
     None \<Rightarrow> \<exists>s'. startPracticeSession now s = NoQuestions s'
   | Some ws \<Rightarrow> \<exists>s'. startPracticeSession now s = Started s'
        \<and> mset (filteredQuestions s') = mset ws \<and> ws \<noteq> []
        \<and> isSessionActive s' \<and> currentQuestionIndex s' = 0"
proof -
  let ?pool = "questions_st s" and ?boxes = "subjectBoxes s" and ?lv = "levelChoice s"
  let ?chosen = "map cb_value (filter cb_checked ?boxes)"
  let ?all = "selected_after_all ?boxes"
  let ?s0 = "snd (filterQuestions s)"
  have c0: "fst (filterQuestions s) = length (matching ?pool ?chosen ?lv)"
    by (rule filterQuestions_count)
  show ?thesis
  proof (cases "matching ?pool ?chosen ?lv = []")
    case False
    then show ?thesis
      by (simp add: resolve_filters_def startPracticeSession_def split_def Let_def c0
          begin_session_state filterQuestions_state)
  next
    case m0: True
    show ?thesis
    proof (cases "?chosen = []")
      case chosen: True
      let ?s1 = "snd (filterQuestions (selectAllSubjects ?s0))"
      have boxes1: "subjectBoxes ?s1
          = map (\<lambda>b. if \<not> cb_disabled b then b\<lparr> cb_checked := True \<rparr> else b) ?boxes"
        by (simp add: filterQuestions_state selectAllSubjects_def)
      have c1: "fst (filterQuestions (selectAllSubjects ?s0)) = length (matching ?pool ?all ?lv)"
        by (simp add: filterQuestions_count filterQuestions_state selectAllSubjects_def
            selectAll_selected)
      have f1: "mset (filteredQuestions ?s1) = mset (matching ?pool ?all ?lv)"
        by (simp add: filterQuestions_state selectAllSubjects_def selectAll_selected)
      show ?thesis
      proof (cases "matching ?pool ?all ?lv = []")
        case False
        with m0 chosen show ?thesis
          by (simp add: resolve_filters_def startPracticeSession_def split_def Let_def c0 c1 f1
              begin_session_state filterQuestions_state(2,3,4))
      next
        case m1: True
        let ?s2 = "snd (filterQuestions (?s1\<lparr> levelChoice := [] \<rparr>))"
        have c2: "fst (filterQuestions (?s1\<lparr> levelChoice := [] \<rparr>)) = length (matching ?pool ?all [])"
          by (simp add: filterQuestions_count filterQuestions_state selectAllSubjects_def
              selectAll_selected)
        have f2: "mset (filteredQuestions ?s2) = mset (matching ?pool ?all [])"
          by (simp add: filterQuestions_state selectAllSubjects_def selectAll_selected)
        show ?thesis
        proof (cases "matching ?pool ?all [] = []")
          case False
          with m0 m1 chosen show ?thesis
            by (simp add: resolve_filters_def startPracticeSession_def split_def Let_def c0 c1 c2 f2
                begin_session_state filterQuestions_state(2,3,4))
        next
          case m2: True
          have c3: "fst (filterQuestions (selectAllAvailableSubjects ?s2)) = 0"
            by (simp add: filterQuestions_count filterQuestions_state selectAllSubjects_def
                selectAllAvailableSubjects_def selectAll_selected selected_after_all_again m2
                del: map_map)
          from m0 m1 m2 chosen show ?thesis
            by (simp add: resolve_filters_def startPracticeSession_def split_def Let_def c0 c1 c2 c3
                filterQuestions_state(2,3,4))
        qed
      qed
    next
      case chosen: False
      then have checked: "filter cb_checked (subjectBoxes ?s0) \<noteq> []"
        by (simp add: filterQuestions_state)
      let ?s2 = "snd (filterQuestions (?s0\<lparr> levelChoice := [] \<rparr>))"
      have c2: "fst (filterQuestions (?s0\<lparr> levelChoice := [] \<rparr>)) = length (matching ?pool ?chosen [])"
        by (simp add: filterQuestions_count filterQuestions_state)
      have f2: "mset (filteredQuestions ?s2) = mset (matching ?pool ?chosen [])"
        by (simp add: filterQuestions_state)
      show ?thesis
      proof (cases "matching ?pool ?chosen [] = []")
        case False
        with m0 chosen checked show ?thesis
          by (simp add: resolve_filters_def startPracticeSession_def split_def Let_def c0 c2 f2
              begin_session_state)
      next
        case m2: True
        let ?s3 = "snd (filterQuestions (selectAllAvailableSubjects ?s2))"
        have c3: "fst (filterQuestions (selectAllAvailableSubjects ?s2)) = length (matching ?pool ?all [])"
          by (simp add: filterQuestions_count filterQuestions_state selectAllAvailableSubjects_def
              selectAll_selected)
        have f3: "mset (filteredQuestions ?s3) = mset (matching ?pool ?all [])"
          by (simp add: filterQuestions_state selectAllAvailableSubjects_def selectAll_selected)
        show ?thesis
        proof (cases "matching ?pool ?all [] = []")
          case False
          with m0 m2 chosen checked show ?thesis
            by (simp add: resolve_filters_def startPracticeSession_def split_def Let_def c0 c2 c3 f3
                begin_session_state)
        next
          case True
          with m0 m2 chosen checked show ?thesis
            by (simp add: resolve_filters_def startPracticeSession_def split_def Let_def c0 c2 c3)
        qed
      qed
    qed
  qed
qed

lemma updateSubjectSelector_reflects:
  "boxes_reflect_pool qs (subjectBoxes (updateSubjectSelector qs s))"
proof -
  have "list_all (\<lambda>b. (cb_checked b \<longrightarrow> \<not> cb_disabled b) \<and> (cb_disabled b \<longleftrightarrow> \<not> has_question qs b))
      (map (\<lambda>b. if list_ex (\<lambda>q. category q = cb_value b) qs
                    then b\<lparr> cb_disabled := False \<rparr>
                    else b\<lparr> cb_disabled := True, cb_checked := False \<rparr>) boxes)" for boxes
    by (induction boxes) (simp_all add: has_question_def)
  then show ?thesis by (simp add: boxes_reflect_pool_def updateSubjectSelector_def)
qed

lemma selectAllSubjects_reflects:
  assumes "boxes_reflect_pool pool (subjectBoxes s)"
  shows "boxes_reflect_pool pool (subjectBoxes (selectAllSubjects s))"
proof -
  have "list_all (\<lambda>b. (cb_checked b \<longrightarrow> \<not> cb_disabled b) \<and> (cb_disabled b \<longleftrightarrow> \<not> has_question pool b)) boxes
    \<Longrightarrow> list_all (\<lambda>b. (cb_checked b \<longrightarrow> \<not> cb_disabled b) \<and> (cb_disabled b \<longleftrightarrow> \<not> has_question pool b))
      (map (\<lambda>b. if \<not> cb_disabled b then b\<lparr> cb_checked := True \<rparr> else b) boxes)" for boxes
    by (induction boxes) (auto simp: has_question_def)
  with assms show ?thesis by (simp add: boxes_reflect_pool_def selectAllSubjects_def)
qed

lemma matching_member:
  assumes "q \<in> set pool" "category q \<in> set subjects"
  shows "matching pool subjects [] \<noteq> []"
proof -
  from assms have "q \<in> set (matching pool subjects [])" by (simp add: matching_def)
  then show ?thesis by auto
qed

lemma enabled_box_matches:
  assumes inv: "boxes_reflect_pool pool boxes"
    and b: "b \<in> set boxes" "cb_checked b \<or> \<not> cb_disabled b"
    and sub: "cb_value b \<in> set subjects"
  shows "matching pool subjects [] \<noteq> []"
proof -
  from inv b(1) have "(cb_checked b \<longrightarrow> \<not> cb_disabled b)
      \<and> (cb_disabled b \<longleftrightarrow> \<not> has_question pool b)"
    by (simp add: boxes_reflect_pool_def list_all_iff)
  with b(2) have "has_question pool b" by blast
  then have "list_ex (\<lambda>q. category q = cb_value b) pool" by (simp add: has_question_def)
  then obtain q where "q \<in> set pool" "category q = cb_value b"
    by (auto simp: list_ex_iff)
  with sub show ?thesis by (intro matching_member [of q]) simp_all
qed

lemma resolve_filters_found:
  assumes inv: "boxes_reflect_pool pool boxes" and pool: "pool \<noteq> []"
  shows "resolve_filters pool boxes lv \<noteq> None"
proof -
  let ?chosen = "map cb_value (filter cb_checked boxes)"
  let ?widened = "if ?chosen = [] then selected_after_all boxes else ?chosen"
  have "matching pool ?widened [] \<noteq> []"
  proof (cases "?chosen = []")
    case False
    then obtain b where "b \<in> set boxes" "cb_checked b"
      by (auto simp: filter_empty_conv)
    with False enabled_box_matches [OF inv, of b ?chosen] show ?thesis by simp
  next
    case chosen: True
    show ?thesis
    proof (cases "selected_after_all boxes = []")
      case True
      with chosen pool show ?thesis by (simp add: matching_def)
    next
      case False
      then obtain b where "b \<in> set boxes" "cb_checked b \<or> \<not> cb_disabled b"
        by (auto simp: selected_after_all_def filter_empty_conv)
      with chosen enabled_box_matches [OF inv, of b "selected_after_all boxes"]
      show ?thesis by (simp add: selected_after_all_def)
    qed
  qed
  then show ?thesis by (simp add: resolve_filters_def Let_def)
qed

lemma selected_after_all_available:
  assumes "boxes_reflect_pool pool boxes"
  shows "selected_after_all boxes = map cb_value (filter (has_question pool) boxes)"
proof -
  have "(cb_checked b \<or> \<not> cb_disabled b) = has_question pool b" if "b \<in> set boxes" for b
  proof -
    from assms that have "(cb_checked b \<longrightarrow> \<not> cb_disabled b) \<and> (cb_disabled b \<longleftrightarrow> \<not> has_question pool b)"
      by (simp add: boxes_reflect_pool_def list_all_iff)
    then show ?thesis by blast
  qed
  then have "filter (\<lambda>b. cb_checked b \<or> \<not> cb_disabled b) boxes = filter (has_question pool) boxes"
    by (rule filter_cong [OF refl])
  then show ?thesis by (simp add: selected_after_all_def)
qed

lemma resolve_filters_empty_pool: "resolve_filters [] boxes lv = None"
  by (simp add: resolve_filters_def matching_def Let_def)

text \<open>
  C5. \<^verbatim>\<open>startPracticeSession\<close> resolves the filters as the escalation says: the
  selection as it is; if it matches nothing and no subject was selected, all subjects; if
  still nothing, the level cleared; if still nothing, all available subjects; the first
  step that matches gives the working set (in a shuffled order) and starts the session,
  and exhaustion is reported when no step matches. Selecting all subjects checks the
  enabled checkboxes; when the checkboxes reflect the loaded pool, as
  \<^verbatim>\<open>updateSubjectSelector\<close> leaves them, these are the subjects that have a question,
  and if the pool has a question exhaustion is not reported; for an empty pool it is.
\<close>

theorem startPracticeSession_fallbacks:
  "(case resolve_filters (questions_st s) (subjectBoxes s) (levelChoice s) of
      None \<Rightarrow> \<exists>s'. startPracticeSession now s = NoQuestions s'
    | Some ws \<Rightarrow> \<exists>s'. startPracticeSession now s = Started s'
         \<and> mset (filteredQuestions s') = mset ws \<and> ws \<noteq> []
         \<and> isSessionActive s' \<and> currentQuestionIndex s' = 0)
   \<and> (boxes_reflect_pool (questions_st s) (subjectBoxes s) \<longrightarrow>
        selected_after_all (subjectBoxes s)
          = map cb_value (filter (has_question (questions_st s)) (subjectBoxes s)))
   \<and> (boxes_reflect_pool (questions_st s) (subjectBoxes s) \<and> questions_st s \<noteq> [] \<longrightarrow>
        (\<exists>s'. startPracticeSession now s = Started s' \<and> filteredQuestions s' \<noteq> []))
   \<and> (questions_st s = [] \<longrightarrow> (\<exists>s'. startPracticeSession now s = NoQuestions s'))"
proof -
  note main = startPracticeSession_resolve [where s = s and now = now]
  have found: "\<exists>s'. startPracticeSession now s = Started s' \<and> filteredQuestions s' \<noteq> []"
    if "boxes_reflect_pool (questions_st s) (subjectBoxes s)" "questions_st s \<noteq> []"
  proof -
    from resolve_filters_found [OF that] obtain ws
      where "resolve_filters (questions_st s) (subjectBoxes s) (levelChoice s) = Some ws"
      by blast
    with main obtain s' where "startPracticeSession now s = Started s'"
      "mset (filteredQuestions s') = mset ws" "ws \<noteq> []"
      by auto
    then show ?thesis by (metis mset_zero_iff)
  qed
  have none: "\<exists>s'. startPracticeSession now s = NoQuestions s'" if "questions_st s = []"
    using main that by (simp add: resolve_filters_empty_pool)
  have avail: "selected_after_all (subjectBoxes s)
          = map cb_value (filter (has_question (questions_st s)) (subjectBoxes s))"
    if "boxes_reflect_pool (questions_st s) (subjectBoxes s)"
    using that by (rule selected_after_all_available)
  show ?thesis
  proof (intro conjI impI)
    show "case resolve_filters (questions_st s) (subjectBoxes s) (levelChoice s) of
        None \<Rightarrow> \<exists>s'. startPracticeSession now s = NoQuestions s'
      | Some ws \<Rightarrow> \<exists>s'. startPracticeSession now s = Started s'
           \<and> mset (filteredQuestions s') = mset ws \<and> ws \<noteq> []
           \<and> isSessionActive s' \<and> currentQuestionIndex s' = 0"
      by (rule main)
  next
    assume "boxes_reflect_pool (questions_st s) (subjectBoxes s)"
    then show "selected_after_all (subjectBoxes s)
          = map cb_value (filter (has_question (questions_st s)) (subjectBoxes s))"
      by (rule avail)
  next
    assume "boxes_reflect_pool (questions_st s) (subjectBoxes s) \<and> questions_st s \<noteq> []"
    then show "\<exists>s'. startPracticeSession now s = Started s' \<and> filteredQuestions s' \<noteq> []"
      using found by blast
  next
    assume "questions_st s = []"
    then show "\<exists>s'. startPracticeSession now s = NoQuestions s'" by (rule none)
  qed
qed

lemma resolve_world0:
  "resolve_filters (questions_st world0) (subjectBoxes world0) (levelChoice world0)
     = Some [record_capital]"
  by (simp add: resolve_filters_def world0_def matching_def selected_after_all_def
      record_capital_def record_valid_def Let_def)

theorem startPracticeSession_fallbacks_witness:
  "boxes_reflect_pool (questions_st world0) (subjectBoxes world0)
   \<and> questions_st world0 \<noteq> []
   \<and> selected_after_all (subjectBoxes world0) = [''Humanities>European History'', ''Cat'']
   \<and> resolve_filters (questions_st world0) (subjectBoxes world0) (levelChoice world0)
       = Some [record_capital]
   \<and> (\<exists>s'. startPracticeSession 1000 world0 = Started s'
         \<and> filteredQuestions s' = [record_capital] \<and> isSessionActive s')
   \<and> questions_st (world0\<lparr> questions_st := [] \<rparr>) = []
   \<and> (\<exists>s'. startPracticeSession 1000 (world0\<lparr> questions_st := [] \<rparr>) = NoQuestions s')"
proof -
  note at_world0 = startPracticeSession_fallbacks [where s = world0 and now = 1000]
  note at_empty = startPracticeSession_fallbacks
    [where s = "world0\<lparr> questions_st := [] \<rparr>" and now = 1000]
  have inv: "boxes_reflect_pool (questions_st world0) (subjectBoxes world0)"
    by (simp add: boxes_reflect_pool_def has_question_def world0_def record_capital_def
        record_valid_def)
  have pool: "questions_st world0 \<noteq> []" by (simp add: world0_def)
  from at_world0 [THEN conjunct1] obtain s' where "startPracticeSession 1000 world0 = Started s'"
    "mset (filteredQuestions s') = mset [record_capital]" "isSessionActive s'"
    unfolding resolve_world0 by auto
  then have started: "\<exists>s'. startPracticeSession 1000 world0 = Started s'
         \<and> filteredQuestions s' = [record_capital] \<and> isSessionActive s'"
    by (auto simp: mset_single_iff_right)
  have "questions_st (world0\<lparr> questions_st := [] \<rparr>) = []" by simp
  with at_empty [THEN conjunct2, THEN conjunct2, THEN conjunct2]
  have empty: "\<exists>s'. startPracticeSession 1000 (world0\<lparr> questions_st := [] \<rparr>) = NoQuestions s'"
    by (rule mp)
  have avail: "selected_after_all (subjectBoxes world0) = [''Humanities>European History'', ''Cat'']"
    by (simp add: selected_after_all_def world0_def)
  show ?thesis
  proof (intro conjI)
    show "boxes_reflect_pool (questions_st world0) (subjectBoxes world0)" by (rule inv)
    show "questions_st world0 \<noteq> []" by (rule pool)
    show "selected_after_all (subjectBoxes world0) = [''Humanities>European History'', ''Cat'']"
      by (rule avail)
    show "resolve_filters (questions_st world0) (subjectBoxes world0) (levelChoice world0)
       = Some [record_capital]" by (rule resolve_world0)
    show "\<exists>s'. startPracticeSession 1000 world0 = Started s'
         \<and> filteredQuestions s' = [record_capital] \<and> isSessionActive s'" by (rule started)
    show "questions_st (world0\<lparr> questions_st := [] \<rparr>) = []" by simp
    show "\<exists>s'. startPracticeSession 1000 (world0\<lparr> questions_st := [] \<rparr>) = NoQuestions s'"
      by (rule empty)
  qed
qed

end
